theory Spec2Isabelle
  imports Complex_Main "HOL-Library.Word"
begin

section \<open>Package typing: logical data types\<close>

text \<open>
  \<^verbatim>\<open>type DataType int\<close> with the constants \<^verbatim>\<open>UNKNOWN, INT64, FLOAT64, STRING, TIMESTAMP\<close>
  (\<^verbatim>\<open>iota\<close> order) of \<^verbatim>\<open>typing/datatype.go\<close>.
\<close>

datatype DataType = UNKNOWN | INT64 | FLOAT64 | STRING | TIMESTAMP

definition inputStringToType :: "string \<rightharpoonup> DataType" where
  "inputStringToType =
     [''string'' \<mapsto> STRING, ''integer'' \<mapsto> INT64, ''double'' \<mapsto> FLOAT64,
      ''timestamp'' \<mapsto> TIMESTAMP]"

definition typeToInputString :: "DataType \<rightharpoonup> string" where
  "typeToInputString =
     [STRING \<mapsto> ''string'', INT64 \<mapsto> ''integer'', FLOAT64 \<mapsto> ''double'',
      TIMESTAMP \<mapsto> ''timestamp'']"

text \<open>The method \<^verbatim>\<open>func (dt DataType) String() string\<close>.\<close>

fun String :: "DataType \<Rightarrow> string" where
  "String STRING = ''STRING''"
| "String INT64 = ''INT64''"
| "String FLOAT64 = ''FLOAT64''"
| "String TIMESTAMP = ''TIMESTAMP''"
| "String UNKNOWN = ''UNKNOWN''"

text \<open>
  A floating-point number by its mathematical value: every finite IEEE-754 number is a
  rational, the two zeros are one value (Go's \<^verbatim>\<open>==\<close> does not tell them apart), and the
  three special values are constructors of their own. The conversion
  \<^verbatim>\<open>float64(v.(float32))\<close> is exact, so both widths share the type.
\<close>

datatype fp = Finite rat | PosInf | NegInf | NaN

text \<open>\<^verbatim>\<open>math.Trunc\<close>: the integer part, rounding towards zero; special values are returned
  as they are.\<close>

fun Trunc :: "fp \<Rightarrow> fp" where
  "Trunc (Finite r) = Finite (of_int (if 0 \<le> r then \<lfloor>r\<rfloor> else \<lceil>r\<rceil>))"
| "Trunc PosInf = PosInf"
| "Trunc NegInf = NegInf"
| "Trunc NaN = NaN"

text \<open>Go's \<^verbatim>\<open>==\<close> on floats: a NaN equals nothing, itself included.\<close>

fun fp_eq :: "fp \<Rightarrow> fp \<Rightarrow> bool" where
  "fp_eq NaN _ = False"
| "fp_eq _ NaN = False"
| "fp_eq x y = (x = y)"

text \<open>
  The dynamic values an \<^verbatim>\<open>interface{}\<close> can hold, by dynamic type: the types the
  type switch of \<^verbatim>\<open>TypeFromValue\<close> names, Go's other predeclared scalar types, and
  \<open>GoOther\<close> for a value of any remaining type (named by a tag).
\<close>

datatype go_value =
    GoString string
  | GoFloat32 fp
  | GoFloat64 fp
  | GoInt "64 word"
  | GoInt8 "8 word"
  | GoInt16 "16 word"
  | GoInt32 "32 word"
  | GoInt64 "64 word"
  | GoTime int
  | GoUint "64 word"
  | GoUint8 "8 word"
  | GoUint16 "16 word"
  | GoUint32 "32 word"
  | GoUint64 "64 word"
  | GoUintptr "64 word"
  | GoBool bool
  | GoNil
  | GoOther nat

text \<open>The errors the package builds with \<^verbatim>\<open>fmt.Errorf\<close>, by format and arguments.\<close>

datatype typing_error =
    UnknownCastingType string
  | NoStringForDataType string
  | UnknownDataTypeForValue go_value

text \<open>
  \<^verbatim>\<open>strings.TrimSpace\<close> and \<^verbatim>\<open>strings.ToLower\<close> belong to Go's standard library, not to
  this repository; they are Unicode-aware. The functions below take them as parameters.
\<close>

record strings_pkg =
  TrimSpace :: "string \<Rightarrow> string"
  ToLower :: "string \<Rightarrow> string"

definition TypeFromString :: "strings_pkg \<Rightarrow> string \<Rightarrow> DataType \<times> typing_error option" where
  "TypeFromString S t =
     (let trimmed = TrimSpace S t;
          lowerTrimmed = ToLower S trimmed
      in case inputStringToType lowerTrimmed of
           None \<Rightarrow> (UNKNOWN, Some (UnknownCastingType t))
         | Some dataType \<Rightarrow> (dataType, None))"

definition StringFromType :: "DataType \<Rightarrow> string \<times> typing_error option" where
  "StringFromType dataType =
     (case typeToInputString dataType of
        None \<Rightarrow> ('''', Some (NoStringForDataType (String dataType)))
      | Some str \<Rightarrow> (str, None))"

fun TypeFromValue :: "go_value \<Rightarrow> DataType \<times> typing_error option" where
  "TypeFromValue (GoString s) = (STRING, None)"
| "TypeFromValue (GoFloat32 f) =
     (let floatV = f in if fp_eq (Trunc floatV) floatV then (INT64, None) else (FLOAT64, None))"
| "TypeFromValue (GoFloat64 f) =
     (let floatV = f in if fp_eq (Trunc floatV) floatV then (INT64, None) else (FLOAT64, None))"
| "TypeFromValue (GoInt i) = (INT64, None)"
| "TypeFromValue (GoInt8 i) = (INT64, None)"
| "TypeFromValue (GoInt16 i) = (INT64, None)"
| "TypeFromValue (GoInt32 i) = (INT64, None)"
| "TypeFromValue (GoInt64 i) = (INT64, None)"
| "TypeFromValue (GoTime t) = (TIMESTAMP, None)"
| "TypeFromValue v = (UNKNOWN, Some (UnknownDataTypeForValue v))"

text \<open>
  An instance of the two library functions for witnesses: their behaviour on ASCII text
  (bytes from 128 on are left alone).
\<close>

definition ascii_space :: "char \<Rightarrow> bool" where
  "ascii_space c = (c \<in> set [CHR '' '', CHR 0x09, CHR 0x0A, CHR 0x0B, CHR 0x0C, CHR 0x0D])"

definition ascii_lower :: "char \<Rightarrow> char" where
  "ascii_lower c =
     (let n = (of_char c :: nat) in if 65 \<le> n \<and> n \<le> 90 then char_of (n + 32) else c)"

definition ascii_strings :: strings_pkg where
  "ascii_strings =
     \<lparr>TrimSpace = (\<lambda>s. rev (dropWhile ascii_space (rev (dropWhile ascii_space s)))),
      ToLower = map ascii_lower\<rparr>"

section \<open>Package storages: state, ports and events\<close>

text \<open>
  A Go \<^verbatim>\<open>error\<close> is modelled by its message, so that \<^verbatim>\<open>fmt.Errorf("...: %v", err)\<close>
  is string concatenation. A \<^verbatim>\<open>*schema.Table\<close> is an address into a store of tables;
  lock handles, closers, transactions and row objects (\<^verbatim>\<open>events.Fact\<close>, a Go map, hence a
  reference) are opaque identifiers.
\<close>

type_synonym error = string

type_synonym ref = nat

type_synonym Lock = nat

type_synonym Closer = nat

type_synonym Tx = nat

type_synonym object = nat

text \<open>
  \<^verbatim>\<open>schema.Table\<close> as \<^verbatim>\<open>table_helper.go\<close> uses it: the fields \<^verbatim>\<open>Name\<close>, \<^verbatim>\<open>Columns\<close> (a Go
  map from column name to column) and \<^verbatim>\<open>Version\<close>. The column type is declared outside
  these sources and is a type parameter. The version is only stored and compared.
\<close>

record 'c Table =
  Name :: string
  Columns :: "string \<rightharpoonup> 'c"
  Version :: int

text \<open>\<^verbatim>\<open>ProcessedFile\<close>: one row-group of a flattened payload with its desired schema.\<close>

record ProcessedFile =
  DataSchema :: ref
  payload :: "object list"

text \<open>Every call of a port is recorded, in order, with its arguments and its result.\<close>

datatype 'c event =
    EvLock string string "error + Lock \<times> Closer"
  | EvUnlock Lock Closer "error option"
  | EvGetVersion string string "error + int"
  | EvIncrementVersion string string "error + int"
  | EvGetTableSchema string "error + 'c Table"
  | EvCreateTable "'c Table" "error option"
  | EvPatchTableSchema "'c Table" "error option"
  | EvProcessFilePayload string "8 word list" bool
  | EvApplyDBTyping ref ProcessedFile "error option"
  | EvApplyDBTypingToObject ref object "error option"
  | EvOpenTx "error + Tx"
  | EvInsertInTransaction Tx ref object "error option"
  | EvRollback Tx
  | EvDirectCommit Tx "error option"
  | EvInsert ref object "error option"
  | EvAdapterClose "error option"
  | EvWorkerClose

text \<open>The two log lines of the package, by their format arguments.\<close>

datatype log_entry =
    UnlockFailed string string "64 word" error
  | InsertSkipped string object error

text \<open>
  The collaborators that are not part of these sources, as functions on the state \<open>'w\<close> of
  the outside world: the \<^verbatim>\<open>MonitorKeeper\<close> (lock and version counter), the
  \<^verbatim>\<open>adapters.TableManager\<close> and \<^verbatim>\<open>adapters.Postgres\<close> (the same adapter object), its
  transaction, the \<^verbatim>\<open>schema.Processor\<close>, the streaming worker, the methods \<^verbatim>\<open>Diff\<close> and
  \<^verbatim>\<open>Exists\<close> of package schema, and the package function \<^verbatim>\<open>linesCount\<close>.
  A port that returns a table returns its value; the model stores it in a new cell, and a
  port never writes to a table it is handed. The result of \<^verbatim>\<open>Diff\<close> is used like a table
  (\<^verbatim>\<open>Columns\<close>, \<^verbatim>\<open>Exists()\<close>) and has the type of one; its existence test is a field of its
  own. \<^verbatim>\<open>Diff\<close> and the two existence tests read their arguments and nothing else.
  The pointers and maps that the code dereferences are taken to be non-nil, and no two
  table objects share one \<^verbatim>\<open>Columns\<close> map. The row-groups that \<^verbatim>\<open>ProcessFilePayload\<close> returns
  are a list, in the order in which the three \<^verbatim>\<open>range\<close> statements of \<^verbatim>\<open>Store\<close> visit them.
\<close>

record ('w, 'c) ports =
  Lock :: "string \<Rightarrow> string \<Rightarrow> 'w \<Rightarrow> (error + Lock \<times> Closer) \<times> 'w"
  Unlock :: "Lock \<Rightarrow> Closer \<Rightarrow> 'w \<Rightarrow> error option \<times> 'w"
  GetVersion :: "string \<Rightarrow> string \<Rightarrow> 'w \<Rightarrow> (error + int) \<times> 'w"
  IncrementVersion :: "string \<Rightarrow> string \<Rightarrow> 'w \<Rightarrow> (error + int) \<times> 'w"
  GetTableSchema :: "string \<Rightarrow> 'w \<Rightarrow> (error + 'c Table) \<times> 'w"
  CreateTable :: "'c Table \<Rightarrow> 'w \<Rightarrow> error option \<times> 'w"
  PatchTableSchema :: "'c Table \<Rightarrow> 'w \<Rightarrow> error option \<times> 'w"
  Diff :: "'c Table \<Rightarrow> 'c Table \<Rightarrow> error + 'c Table"
  Exists :: "'c Table \<Rightarrow> bool"
  DiffExists :: "'c Table \<Rightarrow> bool"
  ProcessFilePayload ::
    "string \<Rightarrow> 8 word list \<Rightarrow> bool \<Rightarrow> 'w \<Rightarrow> (error + ('c Table \<times> object list) list) \<times> 'w"
  linesCount :: "8 word list \<Rightarrow> int"
  ApplyDBTyping :: "'c Table \<Rightarrow> 'c Table \<Rightarrow> object list \<Rightarrow> 'w \<Rightarrow> error option \<times> 'w"
  ApplyDBTypingToObject :: "'c Table \<Rightarrow> object \<Rightarrow> 'w \<Rightarrow> error option \<times> 'w"
  OpenTx :: "'w \<Rightarrow> (error + Tx) \<times> 'w"
  InsertInTransaction :: "Tx \<Rightarrow> 'c Table \<Rightarrow> object \<Rightarrow> 'w \<Rightarrow> error option \<times> 'w"
  Rollback :: "Tx \<Rightarrow> 'w \<Rightarrow> 'w"
  DirectCommit :: "Tx \<Rightarrow> 'w \<Rightarrow> error option \<times> 'w"
  AdapterInsert :: "'c Table \<Rightarrow> object \<Rightarrow> 'w \<Rightarrow> error option \<times> 'w"
  AdapterClose :: "'w \<Rightarrow> error option \<times> 'w"
  WorkerClose :: "'w \<Rightarrow> 'w"

text \<open>
  The state a call runs in: the outside world, the store of table objects with the next
  unused address, the fields \<^verbatim>\<open>tables\<close> and \<^verbatim>\<open>storageType\<close> of the \<^verbatim>\<open>TableHelper\<close>,
  the calls made so far and the lines logged so far.
\<close>

record ('w, 'c) state =
  world :: 'w
  heap :: "ref \<Rightarrow> 'c Table"
  nextref :: ref
  tables :: "string \<rightharpoonup> ref"
  storageType :: string
  trace :: "'c event list"
  logged :: "log_entry list"

text \<open>\<^verbatim>\<open>type Postgres struct\<close>: the fields that are data; the collaborators are the ports.
  \<open>streamingWorker\<close> tells whether the pointer of that name is non-nil.\<close>

record Postgres =
  name :: string
  breakOnError :: bool
  streamingWorker :: bool

definition call ::
  "('w \<Rightarrow> 'r \<times> 'w) \<Rightarrow> ('r \<Rightarrow> 'c event) \<Rightarrow> ('w, 'c) state \<Rightarrow> 'r \<times> ('w, 'c) state" where
  "call f ev s =
     (case f (world s) of (r, w) \<Rightarrow> (r, s\<lparr>world := w, trace := trace s @ [ev r]\<rparr>))"

definition alloc :: "'c Table \<Rightarrow> ('w, 'c) state \<Rightarrow> ref \<times> ('w, 'c) state" where
  "alloc t s = (nextref s, s\<lparr>heap := (heap s)(nextref s := t), nextref := Suc (nextref s)\<rparr>)"

text \<open>\<^verbatim>\<open>th.manager.GetTableSchema(name)\<close>: the table returned is a new object.\<close>

definition call_GetTableSchema ::
  "('w, 'c) ports \<Rightarrow> string \<Rightarrow> ('w, 'c) state \<Rightarrow> (error + ref) \<times> ('w, 'c) state" where
  "call_GetTableSchema P n s =
     (case call (GetTableSchema P n) (EvGetTableSchema n) s of
        (Inl err, s1) \<Rightarrow> (Inl err, s1)
      | (Inr t, s1) \<Rightarrow> (case alloc t s1 of (r, s2) \<Rightarrow> (Inr r, s2)))"

text \<open>An assignment \<^verbatim>\<open>p.Version = ver\<close> through the pointer \<open>p\<close>.\<close>

definition set_Version :: "ref \<Rightarrow> int \<Rightarrow> ('w, 'c) state \<Rightarrow> ('w, 'c) state" where
  "set_Version p ver s = s\<lparr>heap := (heap s)(p := (heap s p)\<lparr>Version := ver\<rparr>)\<rparr>"

section \<open>The table helper (table_helper.go)\<close>

definition unlockRetryCount :: "64 word" where
  "unlockRetryCount = 5"

text \<open>
  \<^verbatim>\<open>func (th *TableHelper) unlock(lock, closer, tableName, retry)\<close>. \<^verbatim>\<open>retry\<close> is a Go
  \<^verbatim>\<open>int\<close> (64 bits), compared with \<^verbatim>\<open>==\<close>: the recursion ends for every start value
  because the counter wraps around.
\<close>

function unlock ::
  "('w, 'c) ports \<Rightarrow> Lock \<Rightarrow> Closer \<Rightarrow> string \<Rightarrow> 64 word \<Rightarrow> ('w, 'c) state \<Rightarrow> ('w, 'c) state" where
  "unlock P lock closer tableName retry s =
     (case call (Unlock P lock closer) (EvUnlock lock closer) s of
        (None, s1) \<Rightarrow> s1
      | (Some err, s1) \<Rightarrow>
          if retry = unlockRetryCount
          then s1\<lparr>logged := logged s1 @ [UnlockFailed tableName (storageType s1) retry err]\<rparr>
          else unlock P lock closer tableName (retry + 1) s1)"
  by pat_completeness auto
termination
proof (relation "measure (\<lambda>(P, lock, closer, tableName, retry, s). unat (unlockRetryCount - retry))")
  show "wf (measure (\<lambda>(P :: ('w, 'c) ports, lock :: Lock, closer :: Closer, tableName :: string,
      retry, s :: ('w, 'c) state). unat (unlockRetryCount - retry)))"
    by simp
next
  fix P :: "('w, 'c) ports" and lock closer :: nat and tableName :: string
    and retry :: "64 word" and s x :: "('w, 'c) state" and y x2 :: "'a"
  assume "retry \<noteq> unlockRetryCount"
  then have "unlockRetryCount - retry \<noteq> 0"
    by simp
  then have "unat (unlockRetryCount - retry - 1) < unat (unlockRetryCount - retry)"
    by (rule measure_unat)
  then show "((P, lock, closer, tableName, retry + 1, x), (P, lock, closer, tableName, retry, s))
      \<in> measure (\<lambda>(P, lock, closer, tableName, retry, s). unat (unlockRetryCount - retry))"
    by (simp add: algebra_simps)
qed

declare unlock.simps [simp del]

text \<open>
  \<^verbatim>\<open>getOrCreate\<close>, lines 119 to 147: what runs while the lock is held. On the create branch
  \<^verbatim>\<open>dbTableSchema = dataSchema\<close> makes the result the caller's own object, and the version
  is written into it.
\<close>

definition getOrCreate_locked ::
  "('w, 'c) ports \<Rightarrow> string \<Rightarrow> ref \<Rightarrow> ('w, 'c) state \<Rightarrow> (error + ref) \<times> ('w, 'c) state" where
  "getOrCreate_locked P destinationName dataSchema s =
     (case call_GetTableSchema P (Name (heap s dataSchema)) s of
        (Inl err, s1) \<Rightarrow>
          (Inl (''Error getting table '' @ Name (heap s1 dataSchema) @ '' schema from ''
                 @ storageType s1 @ '': '' @ err), s1)
      | (Inr dbTableSchema, s1) \<Rightarrow>
          if \<not> Exists P (heap s1 dbTableSchema) then
            (case call (CreateTable P (heap s1 dataSchema))
                    (EvCreateTable (heap s1 dataSchema)) s1 of
               (Some err, s2) \<Rightarrow>
                 (Inl (''Error creating table '' @ Name (heap s2 dataSchema) @ '' in ''
                        @ storageType s2 @ '': '' @ err), s2)
             | (None, s2) \<Rightarrow>
                 (case call (IncrementVersion P destinationName (Name (heap s2 dataSchema)))
                         (EvIncrementVersion destinationName (Name (heap s2 dataSchema))) s2 of
                    (Inl err, s3) \<Rightarrow>
                      (Inl (''Error incrementing version of table ''
                             @ Name (heap s3 dataSchema) @ '' in '' @ storageType s3
                             @ '': '' @ err), s3)
                  | (Inr ver, s3) \<Rightarrow> (Inr dataSchema, set_Version dataSchema ver s3)))
          else
            (case call (GetVersion P destinationName (Name (heap s1 dbTableSchema)))
                    (EvGetVersion destinationName (Name (heap s1 dbTableSchema))) s1 of
               (Inl err, s2) \<Rightarrow>
                 (Inl (''Error getting version of table '' @ Name (heap s2 dataSchema)
                        @ '' in '' @ storageType s2 @ '': '' @ err), s2)
             | (Inr ver, s2) \<Rightarrow> (Inr dbTableSchema, set_Version dbTableSchema ver s2)))"

text \<open>\<^verbatim>\<open>getOrCreate\<close>: the lock, then the body above, then the deferred \<^verbatim>\<open>unlock\<close>, which
  runs on every return after the \<^verbatim>\<open>defer\<close> statement and cannot touch the result.\<close>

definition getOrCreate ::
  "('w, 'c) ports \<Rightarrow> string \<Rightarrow> ref \<Rightarrow> ('w, 'c) state \<Rightarrow> (error + ref) \<times> ('w, 'c) state" where
  "getOrCreate P destinationName dataSchema s =
     (case call (Lock P destinationName (Name (heap s dataSchema)))
             (EvLock destinationName (Name (heap s dataSchema))) s of
        (Inl err, s1) \<Rightarrow>
          (Inl (''System error locking table '' @ Name (heap s1 dataSchema) @ '' in ''
                 @ storageType s1 @ '': '' @ err), s1)
      | (Inr (lock, closer), s1) \<Rightarrow>
          (case getOrCreate_locked P destinationName dataSchema s1 of
             (res, s2) \<Rightarrow> (res, unlock P lock closer (Name (heap s1 dataSchema)) 1 s2)))"

text \<open>\<^verbatim>\<open>EnsureTable\<close>, lines 87 to 108: return if there is no diff, else patch, increment the
  version, merge the diff's columns into the table object and set its version.\<close>

definition EnsureTable_apply ::
  "('w, 'c) ports \<Rightarrow> string \<Rightarrow> ref \<Rightarrow> 'c Table \<Rightarrow> ('w, 'c) state
     \<Rightarrow> (error + ref) \<times> ('w, 'c) state" where
  "EnsureTable_apply P destinationName dbTableSchema schemaDiff s =
     (if \<not> DiffExists P schemaDiff then (Inr dbTableSchema, s)
      else
        (case call (PatchTableSchema P schemaDiff) (EvPatchTableSchema schemaDiff) s of
           (Some err, s1) \<Rightarrow> (Inl err, s1)
         | (None, s1) \<Rightarrow>
             (case call (IncrementVersion P destinationName (Name (heap s1 dbTableSchema)))
                     (EvIncrementVersion destinationName (Name (heap s1 dbTableSchema))) s1 of
                (Inl err, s2) \<Rightarrow>
                  (Inl (''Error incrementing version in storage ['' @ storageType s2 @ '']: ''
                         @ err), s2)
              | (Inr newVersion, s2) \<Rightarrow>
                  (Inr dbTableSchema,
                   s2\<lparr>heap := (heap s2)(dbTableSchema := (heap s2 dbTableSchema)
                         \<lparr>Columns := Columns (heap s2 dbTableSchema) ++ Columns schemaDiff,
                          Version := newVersion\<rparr>)\<rparr>))))"

text \<open>\<^verbatim>\<open>EnsureTable\<close>, lines 67 to 85, continued by the part above: read the version under
  the lock; if it is not the version of the table object in hand, fetch the schema anew
  (the local variable now points to the new object, the cache is not written), give it
  the version read and compute the diff again.\<close>

definition EnsureTable_locked ::
  "('w, 'c) ports \<Rightarrow> string \<Rightarrow> ref \<Rightarrow> ref \<Rightarrow> 'c Table \<Rightarrow> ('w, 'c) state
     \<Rightarrow> (error + ref) \<times> ('w, 'c) state" where
  "EnsureTable_locked P destinationName dataSchema dbTableSchema schemaDiff s =
     (case call (GetVersion P destinationName (Name (heap s dbTableSchema)))
             (EvGetVersion destinationName (Name (heap s dbTableSchema))) s of
        (Inl err, s1) \<Rightarrow>
          (Inl (''Error getting version of table '' @ Name (heap s1 dataSchema) @ '' in ''
                 @ storageType s1 @ '': '' @ err), s1)
      | (Inr ver, s1) \<Rightarrow>
          if ver \<noteq> Version (heap s1 dbTableSchema) then
            (case call_GetTableSchema P (Name (heap s1 dataSchema)) s1 of
               (Inl err, s2) \<Rightarrow>
                 (Inl (''Error getting table '' @ Name (heap s2 dataSchema) @ '' schema from ''
                        @ storageType s2 @ '': '' @ err), s2)
             | (Inr dbTableSchema', s2) \<Rightarrow>
                 (let s3 = set_Version dbTableSchema' ver s2
                  in case Diff P (heap s3 dbTableSchema') (heap s3 dataSchema) of
                       Inl err \<Rightarrow> (Inl err, s3)
                     | Inr schemaDiff' \<Rightarrow>
                         EnsureTable_apply P destinationName dbTableSchema' schemaDiff' s3))
          else EnsureTable_apply P destinationName dbTableSchema schemaDiff s1)"

text \<open>\<^verbatim>\<open>EnsureTable\<close>, lines 50 to 65, continued by the part above and closed by the
  deferred \<^verbatim>\<open>unlock\<close>.\<close>

definition EnsureTable_diff ::
  "('w, 'c) ports \<Rightarrow> string \<Rightarrow> ref \<Rightarrow> ref \<Rightarrow> ('w, 'c) state \<Rightarrow> (error + ref) \<times> ('w, 'c) state" where
  "EnsureTable_diff P destinationName dataSchema dbTableSchema s =
     (case Diff P (heap s dbTableSchema) (heap s dataSchema) of
        Inl err \<Rightarrow> (Inl err, s)
      | Inr schemaDiff \<Rightarrow>
          if \<not> DiffExists P schemaDiff then (Inr dbTableSchema, s)
          else
            (case call (Lock P destinationName (Name (heap s dbTableSchema)))
                    (EvLock destinationName (Name (heap s dbTableSchema))) s of
               (Inl err, s1) \<Rightarrow>
                 (Inl (''System error locking table '' @ Name (heap s1 dataSchema) @ '' in ''
                        @ storageType s1 @ '': '' @ err), s1)
             | (Inr (lock, closer), s1) \<Rightarrow>
                 (case EnsureTable_locked P destinationName dataSchema dbTableSchema schemaDiff s1 of
                    (res, s2) \<Rightarrow> (res, unlock P lock closer (Name (heap s1 dataSchema)) 1 s2))))"

text \<open>\<^verbatim>\<open>EnsureTable\<close>, lines 36 to 48, continued by the part above.\<close>

definition EnsureTable ::
  "('w, 'c) ports \<Rightarrow> string \<Rightarrow> ref \<Rightarrow> ('w, 'c) state \<Rightarrow> (error + ref) \<times> ('w, 'c) state" where
  "EnsureTable P destinationName dataSchema s =
     (case tables s (Name (heap s dataSchema)) of
        None \<Rightarrow>
          (case getOrCreate P destinationName dataSchema s of
             (Inl err, s1) \<Rightarrow> (Inl err, s1)
           | (Inr dbTableSchema, s1) \<Rightarrow>
               EnsureTable_diff P destinationName dataSchema dbTableSchema
                 (s1\<lparr>tables := (tables s1)(Name (heap s1 dbTableSchema) \<mapsto> dbTableSchema)\<rparr>))
      | Some dbTableSchema \<Rightarrow> EnsureTable_diff P destinationName dataSchema dbTableSchema s)"

section \<open>The Postgres storage (postgres.go)\<close>

text \<open>Modelled from the spec: \<^verbatim>\<open>GetPayloadLen\<close> of \<^verbatim>\<open>ProcessedFile\<close> is not in these sources;
  the spec has it as the row count of the row-group.\<close>

definition GetPayloadLen :: "ProcessedFile \<Rightarrow> int" where
  "GetPayloadLen fdata = int (length (payload fdata))"

text \<open>The row-groups returned by \<^verbatim>\<open>ProcessFilePayload\<close>: each desired schema is a new table
  object.\<close>

fun alloc_groups ::
  "('c Table \<times> object list) list \<Rightarrow> ('w, 'c) state \<Rightarrow> ProcessedFile list \<times> ('w, 'c) state" where
  "alloc_groups [] s = ([], s)"
| "alloc_groups ((t, objs) # gs) s =
     (case alloc t s of
        (r, s1) \<Rightarrow>
          (case alloc_groups gs s1 of
             (fs, s2) \<Rightarrow> (\<lparr>DataSchema = r, payload = objs\<rparr> # fs, s2)))"

text \<open>\<^verbatim>\<open>Store\<close>, lines 72 to 81: the loop that ensures the tables and applies the typing.
  \<open>Some err\<close> is the early \<^verbatim>\<open>return rowsCount, err\<close>.\<close>

fun Store_tables ::
  "('w, 'c) ports \<Rightarrow> Postgres \<Rightarrow> ProcessedFile list \<Rightarrow> ('w, 'c) state
     \<Rightarrow> error option \<times> ('w, 'c) state" where
  "Store_tables P p [] s = (None, s)"
| "Store_tables P p (fdata # rest) s =
     (case EnsureTable P (name p) (DataSchema fdata) s of
        (Inl err, s1) \<Rightarrow> (Some err, s1)
      | (Inr dbSchema, s1) \<Rightarrow>
          (case call (ApplyDBTyping P (heap s1 dbSchema) (heap s1 (DataSchema fdata))
                        (payload fdata))
                  (EvApplyDBTyping dbSchema fdata) s1 of
             (Some err, s2) \<Rightarrow> (Some err, s2)
           | (None, s2) \<Rightarrow> Store_tables P p rest s2))"

text \<open>\<^verbatim>\<open>Store\<close>, lines 90 to 99: the rows of one row-group. \<open>Some err\<close> is the early return
  after the rollback.\<close>

fun Store_rows ::
  "('w, 'c) ports \<Rightarrow> Postgres \<Rightarrow> Tx \<Rightarrow> ref \<Rightarrow> object list \<Rightarrow> ('w, 'c) state
     \<Rightarrow> error option \<times> ('w, 'c) state" where
  "Store_rows P p tx dataSchema [] s = (None, s)"
| "Store_rows P p tx dataSchema (obj # rest) s =
     (case call (InsertInTransaction P tx (heap s dataSchema) obj)
             (EvInsertInTransaction tx dataSchema obj) s of
        (Some err, s1) \<Rightarrow>
          if breakOnError p
          then (Some err, snd (call (\<lambda>w. ((), Rollback P tx w)) (\<lambda>_. EvRollback tx) s1))
          else Store_rows P p tx dataSchema rest
                 (s1\<lparr>logged := logged s1 @ [InsertSkipped (name p) obj err]\<rparr>)
      | (None, s1) \<Rightarrow> Store_rows P p tx dataSchema rest s1)"

text \<open>\<^verbatim>\<open>Store\<close>, lines 89 to 100: the loop over the row-groups.\<close>

fun Store_groups ::
  "('w, 'c) ports \<Rightarrow> Postgres \<Rightarrow> Tx \<Rightarrow> ProcessedFile list \<Rightarrow> ('w, 'c) state
     \<Rightarrow> error option \<times> ('w, 'c) state" where
  "Store_groups P p tx [] s = (None, s)"
| "Store_groups P p tx (fdata # rest) s =
     (case Store_rows P p tx (DataSchema fdata) (payload fdata) s of
        (Some err, s1) \<Rightarrow> (Some err, s1)
      | (None, s1) \<Rightarrow> Store_groups P p tx rest s1)"

text \<open>\<^verbatim>\<open>Store\<close>, lines 66 to 69.\<close>

definition rowsCount :: "ProcessedFile list \<Rightarrow> int" where
  "rowsCount flatData = fold (\<lambda>fdata n. n + GetPayloadLen fdata) flatData 0"

text \<open>\<^verbatim>\<open>Store\<close>, from line 84 on: the transaction.\<close>

definition Store_tx ::
  "('w, 'c) ports \<Rightarrow> Postgres \<Rightarrow> ProcessedFile list \<Rightarrow> ('w, 'c) state
     \<Rightarrow> (int \<times> error option) \<times> ('w, 'c) state" where
  "Store_tx P p flatData s =
     (case call (OpenTx P) EvOpenTx s of
        (Inl err, s1) \<Rightarrow>
          ((rowsCount flatData, Some (''Error opening postgres transaction: '' @ err)), s1)
      | (Inr tx, s1) \<Rightarrow>
          (case Store_groups P p tx flatData s1 of
             (Some err, s2) \<Rightarrow> ((rowsCount flatData, Some err), s2)
           | (None, s2) \<Rightarrow>
               (case call (DirectCommit P tx) (EvDirectCommit tx) s2 of
                  (res, s3) \<Rightarrow> ((rowsCount flatData, res), s3))))"

definition Store ::
  "('w, 'c) ports \<Rightarrow> Postgres \<Rightarrow> string \<Rightarrow> 8 word list \<Rightarrow> ('w, 'c) state
     \<Rightarrow> (int \<times> error option) \<times> ('w, 'c) state" where
  "Store P p fileName payload_bytes s =
     (case call (ProcessFilePayload P fileName payload_bytes (breakOnError p))
             (\<lambda>_. EvProcessFilePayload fileName payload_bytes (breakOnError p)) s of
        (Inl err, s1) \<Rightarrow> ((linesCount P payload_bytes, Some err), s1)
      | (Inr groups, s1) \<Rightarrow>
          (case alloc_groups groups s1 of
             (flatData, s2) \<Rightarrow>
               (case Store_tables P p flatData s2 of
                  (Some err, s3) \<Rightarrow> ((rowsCount flatData, Some err), s3)
                | (None, s3) \<Rightarrow> Store_tx P p flatData s3)))"

text \<open>\<^verbatim>\<open>func (p *Postgres) Insert\<close>; \<open>fct\<close> is the parameter \<^verbatim>\<open>fact\<close>, \<open>AdapterInsert\<close> is
  \<^verbatim>\<open>p.adapter.Insert\<close>.\<close>

definition Insert ::
  "('w, 'c) ports \<Rightarrow> Postgres \<Rightarrow> ref \<Rightarrow> object \<Rightarrow> ('w, 'c) state
     \<Rightarrow> error option \<times> ('w, 'c) state" where
  "Insert P p dataSchema fct s =
     (case EnsureTable P (name p) dataSchema s of
        (Inl err, s1) \<Rightarrow> (Some err, s1)
      | (Inr dbSchema, s1) \<Rightarrow>
          (case call (ApplyDBTypingToObject P (heap s1 dbSchema) fct)
                  (EvApplyDBTypingToObject dbSchema fct) s1 of
             (Some err, s2) \<Rightarrow> (Some err, s2)
           | (None, s2) \<Rightarrow>
               call (AdapterInsert P (heap s2 dataSchema) fct) (EvInsert dataSchema fct) s2))"

definition Close :: "('w, 'c) ports \<Rightarrow> Postgres \<Rightarrow> ('w, 'c) state \<Rightarrow> error option \<times> ('w, 'c) state" where
  "Close P p s =
     (case call (AdapterClose P) EvAdapterClose s of
        (Some err, s1) \<Rightarrow>
          (Some (''['' @ name p @ ''] Error closing postgres datasource: '' @ err), s1)
      | (None, s1) \<Rightarrow>
          if streamingWorker p
          then (None, snd (call (\<lambda>w. ((), WorkerClose P w)) (\<lambda>_. EvWorkerClose) s1))
          else (None, s1))"

section \<open>Reading a trace\<close>

text \<open>The events after the first \<open>n\<close>: what a call added to a trace of length \<open>n\<close>.\<close>

definition added :: "('w, 'c) state \<Rightarrow> ('w, 'c) state \<Rightarrow> 'c event list" where
  "added s s' = drop (length (trace s)) (trace s')"

fun is_Unlock :: "'c event \<Rightarrow> bool" where
  "is_Unlock (EvUnlock l c r) = True"
| "is_Unlock e = False"

fun is_mutation :: "'c event \<Rightarrow> bool" where
  "is_mutation (EvCreateTable t r) = True"
| "is_mutation (EvPatchTableSchema d r) = True"
| "is_mutation (EvIncrementVersion d t r) = True"
| "is_mutation e = False"

text \<open>The calls other than \<^verbatim>\<open>Unlock\<close> that a call added.\<close>

definition calls :: "('w, 'c) state \<Rightarrow> ('w, 'c) state \<Rightarrow> 'c event list" where
  "calls s s' = filter (\<lambda>e. \<not> is_Unlock e) (added s s')"

text \<open>The later state has the trace of the earlier one and perhaps more events after it.\<close>

definition extends :: "('w, 'c) state \<Rightarrow> ('w, 'c) state \<Rightarrow> bool" where
  "extends s s' \<longleftrightarrow> (\<exists>evs. trace s' = trace s @ evs)"

text \<open>
  What \<^verbatim>\<open>unlock\<close> may do to a state when at most \<open>n\<close> attempts are left: the attempts that
  failed (their errors are \<open>errs\<close>), then one that succeeded if fewer than \<open>n\<close> failed, else
  the log line; the store, the cache and the storage type stay as they are.
\<close>

definition unlock_result ::
  "Lock \<Rightarrow> Closer \<Rightarrow> string \<Rightarrow> nat \<Rightarrow> ('w, 'c) state \<Rightarrow> ('w, 'c) state \<Rightarrow> bool" where
  "unlock_result l c t n s s' \<longleftrightarrow>
     (\<exists>errs. length errs \<le> n
        \<and> trace s' = trace s @ map (\<lambda>e. EvUnlock l c (Some e)) errs
                       @ (if length errs < n then [EvUnlock l c None] else [])
        \<and> logged s' = logged s
             @ (if length errs < n then []
                else [UnlockFailed t (storageType s) unlockRetryCount (last errs)])
        \<and> heap s' = heap s \<and> nextref s' = nextref s \<and> tables s' = tables s
        \<and> storageType s' = storageType s)"

text \<open>The rows of a flattened payload in the order in which they are inserted, each with the
  desired schema of its row-group.\<close>

definition rows_of :: "ProcessedFile list \<Rightarrow> (ref \<times> object) list" where
  "rows_of flatData = concat (map (\<lambda>fdata. map (Pair (DataSchema fdata)) (payload fdata)) flatData)"

text \<open>The event of one insert attempt, and the log line of a skipped row if there is one.\<close>

definition attempt :: "Tx \<Rightarrow> ref \<times> object \<Rightarrow> error option \<Rightarrow> 'c event" where
  "attempt tx row res = EvInsertInTransaction tx (fst row) (snd row) res"

definition skipped :: "string \<Rightarrow> ref \<times> object \<Rightarrow> error option \<Rightarrow> log_entry list" where
  "skipped n row res = (case res of None \<Rightarrow> [] | Some err \<Rightarrow> [InsertSkipped n (snd row) err])"

text \<open>
  The calls that applying a diff \<open>d\<close> makes in a world \<open>w\<close>, in the words of the
  specification: \<^verbatim>\<open>PatchTableSchema\<close> of \<open>d\<close> and, when that succeeds, \<^verbatim>\<open>IncrementVersion\<close>
  of the table \<open>n\<close>. The theorems compare the trace of \<^verbatim>\<open>EnsureTable\<close> with this list.
\<close>

definition patch_calls :: "('w, 'c) ports \<Rightarrow> string \<Rightarrow> string \<Rightarrow> 'c Table \<Rightarrow> 'w \<Rightarrow> 'c event list" where
  "patch_calls P dest n d w =
     (case PatchTableSchema P d w of
        (Some err, w1) \<Rightarrow> [EvPatchTableSchema d (Some err)]
      | (None, w1) \<Rightarrow>
          [EvPatchTableSchema d None,
           EvIncrementVersion dest n (fst (IncrementVersion P dest n w1))])"

text \<open>The events of \<^verbatim>\<open>PatchTableSchema\<close>.\<close>

fun is_patch :: "'c event \<Rightarrow> bool" where
  "is_patch (EvPatchTableSchema d r) = True"
| "is_patch e = False"

text \<open>
  The calls that a transaction makes on the rows given, in the words of the specification:
  one \<^verbatim>\<open>InsertInTransaction\<close> for each row, handed the table that the store \<open>h\<close> holds at the
  address of the row's desired schema, each in the world the row before it left; with
  \<open>brk\<close> the first failure is followed by \<^verbatim>\<open>Rollback\<close> and nothing else. The theorems
  compare the trace of \<^verbatim>\<open>Store\<close> with this list.
\<close>

fun row_inserts ::
  "('w, 'c) ports \<Rightarrow> bool \<Rightarrow> Tx \<Rightarrow> (ref \<Rightarrow> 'c Table) \<Rightarrow> (ref \<times> object) list \<Rightarrow> 'w \<Rightarrow> 'c event list" where
  "row_inserts P brk tx h [] w = []"
| "row_inserts P brk tx h (row # rows) w =
     (case InsertInTransaction P tx (h (fst row)) (snd row) w of
        (res, w1) \<Rightarrow>
          attempt tx row res
            # (if res \<noteq> None \<and> brk then [EvRollback tx] else row_inserts P brk tx h rows w1))"

section \<open>A simulated environment for concrete runs\<close>

text \<open>
  One destination with one table: its columns (none: the table is absent), its version
  counter, how many of the next \<^verbatim>\<open>Unlock\<close> calls fail, the row objects the destination
  rejects, whether closing the connection fails, and the row-groups the processor makes of
  a payload. The ports follow the contracts of the spec: the lock is granted,
  \<^verbatim>\<open>IncrementVersion\<close> adds one, \<^verbatim>\<open>GetTableSchema\<close> of an absent table gives a table that
  does not exist, \<^verbatim>\<open>Diff\<close> gives the desired columns that the current table lacks.
\<close>

record sim =
  dest_columns :: "string \<rightharpoonup> DataType"
  dest_version :: int
  unlock_failures :: nat
  rejected :: "object list"
  close_fails :: bool
  flattened :: "(DataType Table \<times> object list) list"

definition sim_ports :: "(sim, DataType) ports" where
  "sim_ports =
     \<lparr>Lock = (\<lambda>d t w. (Inr (1, 2), w)),
      Unlock = (\<lambda>l c w.
        if 0 < unlock_failures w
        then (Some ''lock service unavailable'', w\<lparr>unlock_failures := unlock_failures w - 1\<rparr>)
        else (None, w)),
      GetVersion = (\<lambda>d t w. (Inr (dest_version w), w)),
      IncrementVersion = (\<lambda>d t w.
        (Inr (dest_version w + 1), w\<lparr>dest_version := dest_version w + 1\<rparr>)),
      GetTableSchema = (\<lambda>n w. (Inr \<lparr>Name = n, Columns = dest_columns w, Version = 0\<rparr>, w)),
      CreateTable = (\<lambda>t w. (None, w\<lparr>dest_columns := Columns t\<rparr>)),
      PatchTableSchema = (\<lambda>d w. (None, w\<lparr>dest_columns := dest_columns w ++ Columns d\<rparr>)),
      Diff = (\<lambda>cur des.
        Inr \<lparr>Name = Name cur, Columns = Columns des |` (- dom (Columns cur)), Version = 0\<rparr>),
      Exists = (\<lambda>t. Columns t \<noteq> Map.empty),
      DiffExists = (\<lambda>t. Columns t \<noteq> Map.empty),
      ProcessFilePayload = (\<lambda>f bs b w. (Inr (flattened w), w)),
      linesCount = (\<lambda>bs. int (length (filter (\<lambda>b. b = 10) bs))),
      ApplyDBTyping = (\<lambda>db ds objs w. (None, w)),
      ApplyDBTypingToObject = (\<lambda>db obj w. (None, w)),
      OpenTx = (\<lambda>w. (Inr 7, w)),
      InsertInTransaction = (\<lambda>tx t obj w.
        (if obj \<in> set (rejected w) then Some ''row rejected'' else None, w)),
      Rollback = (\<lambda>tx w. w),
      DirectCommit = (\<lambda>tx w. (None, w)),
      AdapterInsert = (\<lambda>t obj w. (None, w)),
      AdapterClose = (\<lambda>w. (if close_fails w then Some ''connection lost'' else None, w)),
      WorkerClose = (\<lambda>w. w)\<rparr>"

definition sim_world :: sim where
  "sim_world =
     \<lparr>dest_columns = Map.empty, dest_version = 0, unlock_failures = 0, rejected = [],
      close_fails = False, flattened = []\<rparr>"

text \<open>The desired schema of the runs: table \<open>events\<close> with an integer column \<open>id\<close> and a
  string column \<open>city\<close>.\<close>

definition desired :: "DataType Table" where
  "desired = \<lparr>Name = ''events'', Columns = [''id'' \<mapsto> INT64, ''city'' \<mapsto> STRING], Version = 0\<rparr>"

text \<open>A state whose store holds the desired schema at address 0, and nothing cached.\<close>

definition sim_state :: "sim \<Rightarrow> (sim, DataType) state" where
  "sim_state w =
     \<lparr>world = w, heap = (\<lambda>_. \<lparr>Name = [], Columns = Map.empty, Version = 0\<rparr>)(0 := desired),
      nextref = 1, tables = Map.empty, storageType = ''postgres'', trace = [], logged = []\<rparr>"

text \<open>The same with a cached schema of \<open>events\<close> at address 1: column \<open>id\<close> only, at the
  version given.\<close>

definition sim_cached :: "sim \<Rightarrow> int \<Rightarrow> (sim, DataType) state" where
  "sim_cached w v =
     (sim_state w)
       \<lparr>heap := (heap (sim_state w))
          (1 := \<lparr>Name = ''events'', Columns = [''id'' \<mapsto> INT64], Version = v\<rparr>),
        nextref := 2, tables := [''events'' \<mapsto> 1]\<rparr>"

text \<open>The state after \<open>events\<close> was created from the desired schema: the cache holds the
  caller's object, at version 1.\<close>

definition sim_created :: "(sim, DataType) state" where
  "sim_created =
     (sim_state (sim_world\<lparr>dest_columns := Columns desired, dest_version := 1\<rparr>))
       \<lparr>heap := (heap (sim_state sim_world))(0 := desired\<lparr>Version := 1\<rparr>),
        tables := [''events'' \<mapsto> 0]\<rparr>"

text \<open>Worlds in which the destination has moved on to version 2 behind the cache: another
  writer added the column \<open>city\<close>, or the column \<open>country\<close>.\<close>

definition world_city :: sim where
  "world_city = sim_world\<lparr>dest_columns := [''id'' \<mapsto> INT64, ''city'' \<mapsto> STRING], dest_version := 2\<rparr>"

definition world_country :: sim where
  "world_country =
     sim_world\<lparr>dest_columns := [''id'' \<mapsto> INT64, ''country'' \<mapsto> STRING], dest_version := 2\<rparr>"

text \<open>A world whose destination is as the cache of \<open>sim_cached w 1\<close> has it.\<close>

definition world_id :: sim where
  "world_id = sim_world\<lparr>dest_columns := [''id'' \<mapsto> INT64], dest_version := 1\<rparr>"

definition city_diff :: "DataType Table" where
  "city_diff = \<lparr>Name = ''events'', Columns = [''city'' \<mapsto> STRING], Version = 0\<rparr>"

definition no_diff :: "DataType Table" where
  "no_diff = \<lparr>Name = ''events'', Columns = Map.empty, Version = 0\<rparr>"

text \<open>A Postgres storage \<open>pg\<close> in the simulated environment, streaming worker running.\<close>

definition sim_pg :: "bool \<Rightarrow> Postgres" where
  "sim_pg b = \<lparr>name = ''pg'', breakOnError = b, streamingWorker = True\<rparr>"

text \<open>A payload of five rows for \<open>events\<close>, the objects 11 to 15, of which the destination
  rejects the second.\<close>

definition world_five :: sim where
  "world_five = sim_world\<lparr>rejected := [12], flattened := [(desired, [11, 12, 13, 14, 15])]\<rparr>"

text \<open>That payload as \<^verbatim>\<open>Store\<close> holds it: one row-group, its schema at address 1.\<close>

definition five :: "ProcessedFile list" where
  "five = [\<lparr>DataSchema = 1, payload = [11, 12, 13, 14, 15]\<rparr>]"

text \<open>A row-group of one row, the object 21, whose desired schema is at address 0.\<close>

definition one_row :: ProcessedFile where
  "one_row = \<lparr>DataSchema = 0, payload = [21]\<rparr>"

text \<open>The simulated ports with one collaborator failing: the lock service, the version
  counter, the fetch of the schema, and the diff against a table of version 2.\<close>

definition ports_no_lock :: "(sim, DataType) ports" where
  "ports_no_lock = sim_ports\<lparr>Lock := (\<lambda>d t w. (Inl ''lock service unavailable'', w))\<rparr>"

definition ports_no_version :: "(sim, DataType) ports" where
  "ports_no_version = sim_ports\<lparr>GetVersion := (\<lambda>d t w. (Inl ''counter unreachable'', w))\<rparr>"

definition ports_no_fetch :: "(sim, DataType) ports" where
  "ports_no_fetch = sim_ports\<lparr>GetTableSchema := (\<lambda>n w. (Inl ''connection reset'', w))\<rparr>"

definition ports_no_rediff :: "(sim, DataType) ports" where
  "ports_no_rediff =
     sim_ports\<lparr>Diff := (\<lambda>cur des.
       if Version cur = 2 then Inl ''column type changed'' else Diff sim_ports cur des)\<rparr>"

text \<open>The simulated ports with a typing step that rejects every object; a payload of two
  row-groups for \<open>events\<close>, the objects 11 and 12 and the object 13, of which the
  destination rejects 12; and that payload as \<^verbatim>\<open>Store\<close> holds it, the schemas at the
  addresses 1 and 2.\<close>

definition ports_no_typing :: "(sim, DataType) ports" where
  "ports_no_typing =
     sim_ports\<lparr>ApplyDBTypingToObject := (\<lambda>db obj w. (Some ''cannot convert'', w))\<rparr>"

definition world_pair :: sim where
  "world_pair = sim_world\<lparr>rejected := [12], flattened := [(desired, [11, 12]), (desired, [13])]\<rparr>"

definition pair :: "ProcessedFile list" where
  "pair = [\<lparr>DataSchema = 1, payload = [11, 12]\<rparr>, \<lparr>DataSchema = 2, payload = [13]\<rparr>]"

section \<open>Properties of package typing\<close>

lemma Trunc_fixed: "fp_eq (Trunc (Finite r)) (Finite r) \<longleftrightarrow> r \<in> \<int>"
proof (cases "0 \<le> r")
  case True
  then show ?thesis by (auto simp: Ints_def)
next
  case False
  then show ?thesis by (auto simp: Ints_def)
qed

lemma tables_inverse:
  "inputStringToType n = Some dt \<Longrightarrow> typeToInputString dt = Some n"
  by (auto simp: inputStringToType_def typeToInputString_def split: if_splits)

text \<open>
  Claim C7, as amended. \<^verbatim>\<open>TypeFromValue\<close> maps every string to STRING, every
  \<^verbatim>\<open>time.Time\<close> to TIMESTAMP, every value of the signed integer types \<^verbatim>\<open>int\<close>, \<^verbatim>\<open>int8\<close>,
  \<^verbatim>\<open>int16\<close>, \<^verbatim>\<open>int32\<close>, \<^verbatim>\<open>int64\<close> to INT64, every \<^verbatim>\<open>float32\<close> or \<^verbatim>\<open>float64\<close> whose
  truncation equals itself to INT64 (for a finite number: exactly when it is a whole
  number; both infinities are such values) and every other float to FLOAT64 (the
  fractional numbers and NaN). A value of any other type, the unsigned integer types
  among them, gives UNKNOWN with the unknown-type error.
\<close>

theorem TypeFromValue_by_type:
  "TypeFromValue (GoString s) = (STRING, None)
   \<and> TypeFromValue (GoTime t) = (TIMESTAMP, None)
   \<and> TypeFromValue (GoInt i) = (INT64, None)
   \<and> TypeFromValue (GoInt8 i8) = (INT64, None)
   \<and> TypeFromValue (GoInt16 i16) = (INT64, None)
   \<and> TypeFromValue (GoInt32 i32) = (INT64, None)
   \<and> TypeFromValue (GoInt64 i64) = (INT64, None)
   \<and> TypeFromValue (GoFloat32 x) = ((if fp_eq (Trunc x) x then INT64 else FLOAT64), None)
   \<and> TypeFromValue (GoFloat64 x) = ((if fp_eq (Trunc x) x then INT64 else FLOAT64), None)
   \<and> TypeFromValue (GoFloat32 (Finite r)) = ((if r \<in> \<int> then INT64 else FLOAT64), None)
   \<and> TypeFromValue (GoFloat64 (Finite r)) = ((if r \<in> \<int> then INT64 else FLOAT64), None)
   \<and> TypeFromValue (GoFloat64 PosInf) = (INT64, None)
   \<and> TypeFromValue (GoFloat64 NegInf) = (INT64, None)
   \<and> TypeFromValue (GoFloat64 NaN) = (FLOAT64, None)
   \<and> TypeFromValue (GoUint u) = (UNKNOWN, Some (UnknownDataTypeForValue (GoUint u)))
   \<and> TypeFromValue (GoUint8 u8) = (UNKNOWN, Some (UnknownDataTypeForValue (GoUint8 u8)))
   \<and> TypeFromValue (GoUint16 u16) = (UNKNOWN, Some (UnknownDataTypeForValue (GoUint16 u16)))
   \<and> TypeFromValue (GoUint32 u32) = (UNKNOWN, Some (UnknownDataTypeForValue (GoUint32 u32)))
   \<and> TypeFromValue (GoUint64 u64) = (UNKNOWN, Some (UnknownDataTypeForValue (GoUint64 u64)))
   \<and> TypeFromValue (GoUintptr up) = (UNKNOWN, Some (UnknownDataTypeForValue (GoUintptr up)))
   \<and> TypeFromValue (GoBool b) = (UNKNOWN, Some (UnknownDataTypeForValue (GoBool b)))
   \<and> TypeFromValue GoNil = (UNKNOWN, Some (UnknownDataTypeForValue GoNil))
   \<and> TypeFromValue (GoOther k) = (UNKNOWN, Some (UnknownDataTypeForValue (GoOther k)))"
  using Trunc_fixed [of r] by (simp del: Trunc.simps(1))

theorem TypeFromValue_by_type_witness:
  "TypeFromValue (GoFloat64 (Finite (5 / 2))) = (FLOAT64, None)
   \<and> TypeFromValue (GoFloat32 (Finite 3)) = (INT64, None)
   \<and> TypeFromValue (GoInt16 (- 1)) = (INT64, None)"
  using TypeFromValue_by_type [where r = "5 / 2" and ?i16.0 = "- 1"]
    TypeFromValue_by_type [where r = 3]
  by (simp del: TypeFromValue.simps)

text \<open>
  Claim C7 as stated has every integer value mapped to INT64. A \<^verbatim>\<open>uint8\<close> is an integer
  value, and the type switch has no case for it: it falls to \<^verbatim>\<open>default\<close>.
\<close>

theorem TypeFromValue_unsigned_counterexample:
  "TypeFromValue (GoUint8 7) = (UNKNOWN, Some (UnknownDataTypeForValue (GoUint8 7)))"
  by simp

text \<open>
  Claim C8. For every name whose trimmed, lower-cased form is in the table of external
  names, \<^verbatim>\<open>TypeFromString\<close> succeeds and \<^verbatim>\<open>StringFromType\<close> of its result is that
  normalised form; for every other name \<^verbatim>\<open>TypeFromString\<close> gives the unknown-casting-type
  error; \<^verbatim>\<open>StringFromType\<close> of UNKNOWN gives an error. This holds whatever the two library
  functions do.
\<close>

theorem TypeFromString_StringFromType_inverse:
  "(ToLower S (TrimSpace S s) \<in> dom inputStringToType \<longrightarrow>
      snd (TypeFromString S s) = None
      \<and> StringFromType (fst (TypeFromString S s)) = (ToLower S (TrimSpace S s), None))
   \<and> (ToLower S (TrimSpace S s) \<notin> dom inputStringToType \<longrightarrow>
      TypeFromString S s = (UNKNOWN, Some (UnknownCastingType s)))
   \<and> StringFromType UNKNOWN = ('''', Some (NoStringForDataType ''UNKNOWN''))"
proof (intro conjI impI)
  assume "ToLower S (TrimSpace S s) \<in> dom inputStringToType"
  then obtain dt where dt: "inputStringToType (ToLower S (TrimSpace S s)) = Some dt"
    by blast
  then show "snd (TypeFromString S s) = None"
    by (simp add: TypeFromString_def)
  from dt have "fst (TypeFromString S s) = dt"
    by (simp add: TypeFromString_def)
  with tables_inverse [OF dt]
  show "StringFromType (fst (TypeFromString S s)) = (ToLower S (TrimSpace S s), None)"
    by (simp add: StringFromType_def)
next
  assume "ToLower S (TrimSpace S s) \<notin> dom inputStringToType"
  then show "TypeFromString S s = (UNKNOWN, Some (UnknownCastingType s))"
    by (simp add: TypeFromString_def domIff)
next
  show "StringFromType UNKNOWN = ('''', Some (NoStringForDataType ''UNKNOWN''))"
    by (simp add: StringFromType_def typeToInputString_def)
qed

lemma ascii_normalise_Integer:
  "ToLower ascii_strings (TrimSpace ascii_strings '' Integer '') = ''integer''"
  by code_simp

lemma ascii_normalise_bogus:
  "ToLower ascii_strings (TrimSpace ascii_strings ''bogus'') = ''bogus''"
  by code_simp

theorem TypeFromString_StringFromType_inverse_witness:
  "ToLower ascii_strings (TrimSpace ascii_strings '' Integer '') \<in> dom inputStringToType
   \<and> TypeFromString ascii_strings '' Integer '' = (INT64, None)
   \<and> StringFromType (fst (TypeFromString ascii_strings '' Integer '')) = (''integer'', None)
   \<and> ToLower ascii_strings (TrimSpace ascii_strings ''bogus'') \<notin> dom inputStringToType
   \<and> TypeFromString ascii_strings ''bogus'' = (UNKNOWN, Some (UnknownCastingType ''bogus''))"
proof -
  have valid: "ToLower ascii_strings (TrimSpace ascii_strings '' Integer '') \<in> dom inputStringToType"
    by (simp add: ascii_normalise_Integer inputStringToType_def)
  have invalid: "ToLower ascii_strings (TrimSpace ascii_strings ''bogus'') \<notin> dom inputStringToType"
    by (simp add: ascii_normalise_bogus inputStringToType_def)
  have int: "TypeFromString ascii_strings '' Integer '' = (INT64, None)"
    by (simp add: TypeFromString_def ascii_normalise_Integer inputStringToType_def)
  from TypeFromString_StringFromType_inverse [of ascii_strings "'' Integer ''"] valid
  have "StringFromType (fst (TypeFromString ascii_strings '' Integer '')) = (''integer'', None)"
    by (simp add: ascii_normalise_Integer)
  moreover from TypeFromString_StringFromType_inverse [of ascii_strings "''bogus''"] invalid
  have "TypeFromString ascii_strings ''bogus'' = (UNKNOWN, Some (UnknownCastingType ''bogus''))"
    by blast
  ultimately show ?thesis using valid invalid int by blast
qed

section \<open>Facts about calls, traces and unlock\<close>

lemma call_eq:
  "call f ev s =
     (fst (f (world s)), s\<lparr>world := snd (f (world s)), trace := trace s @ [ev (fst (f (world s)))]\<rparr>)"
  by (simp add: call_def case_prod_beta)

lemma added_append: "trace s' = trace s @ evs \<Longrightarrow> added s s' = evs"
  by (simp add: added_def)

lemma extends_refl [simp]: "extends s s"
  by (simp add: extends_def)

lemma extends_trans: "extends s s1 \<Longrightarrow> extends s1 s2 \<Longrightarrow> extends s s2"
  by (auto simp: extends_def)

lemma extends_fields [simp]:
  "extends s (s'\<lparr>heap := h\<rparr>) = extends s s'"
  "extends s (s'\<lparr>tables := t\<rparr>) = extends s s'"
  "extends s (s'\<lparr>nextref := n\<rparr>) = extends s s'"
  "extends s (s'\<lparr>logged := lg\<rparr>) = extends s s'"
  "extends (s\<lparr>heap := h\<rparr>) s' = extends s s'"
  "extends (s\<lparr>tables := t\<rparr>) s' = extends s s'"
  "extends (s\<lparr>nextref := n\<rparr>) s' = extends s s'"
  "extends (s\<lparr>logged := lg\<rparr>) s' = extends s s'"
  by (simp_all add: extends_def)

lemma call_extends: "extends s (snd (call f ev s))"
  by (simp add: extends_def call_eq)

lemma call_extends': "call f ev s = (r, s1) \<Longrightarrow> extends s s1"
  using call_extends [of s f ev] by simp

lemma call_GetTableSchema_extends: "call_GetTableSchema P n s = (r, s1) \<Longrightarrow> extends s s1"
  by (auto simp: call_GetTableSchema_def alloc_def split: prod.splits sum.splits
      dest: call_extends')

lemma unlock_success:
  assumes "fst (Unlock P l c (world s)) = None"
  shows "unlock P l c t retry s = s\<lparr>world := snd (Unlock P l c (world s)), trace := trace s @ [EvUnlock l c None]\<rparr>"
  using assms by (subst unlock.simps) (simp add: call_eq)

lemma unlock_give_up:
  assumes "fst (Unlock P l c (world s)) = Some err"
  shows "unlock P l c t unlockRetryCount s =
     s\<lparr>world := snd (Unlock P l c (world s)), trace := trace s @ [EvUnlock l c (Some err)],
       logged := logged s @ [UnlockFailed t (storageType s) unlockRetryCount err]\<rparr>"
  using assms by (subst unlock.simps) (simp add: call_eq)

lemma unlock_retry:
  assumes "fst (Unlock P l c (world s)) = Some err" and "retry \<noteq> unlockRetryCount"
  shows "unlock P l c t retry s =
     unlock P l c t (retry + 1)
       (s\<lparr>world := snd (Unlock P l c (world s)), trace := trace s @ [EvUnlock l c (Some err)]\<rparr>)"
  using assms by (subst unlock.simps) (simp add: call_eq)

lemma unlock_last: "unlock_result l c t 1 s (unlock P l c t unlockRetryCount s)"
proof (cases "fst (Unlock P l c (world s))")
  case None
  show ?thesis
    unfolding unlock_result_def unlock_success [OF None]
    by (intro exI [of _ "[]"]) simp
next
  case (Some err)
  show ?thesis
    unfolding unlock_result_def unlock_give_up [OF Some]
    by (intro exI [of _ "[err]"]) simp
qed

lemma unlock_step:
  assumes r: "retry \<noteq> unlockRetryCount"
    and IH: "\<And>s1. unlock_result l c t n s1 (unlock P l c t (retry + 1) s1)"
    and n: "0 < n"
  shows "unlock_result l c t (Suc n) s (unlock P l c t retry s)"
proof (cases "fst (Unlock P l c (world s))")
  case None
  show ?thesis
    unfolding unlock_result_def unlock_success [OF None]
    by (intro exI [of _ "[]"]) simp
next
  case (Some err)
  define s1 where
    "s1 = s\<lparr>world := snd (Unlock P l c (world s)), trace := trace s @ [EvUnlock l c (Some err)]\<rparr>"
  have u: "unlock P l c t retry s = unlock P l c t (retry + 1) s1"
    unfolding s1_def by (rule unlock_retry [OF Some r])
  from IH [of s1] obtain errs where e: "length errs \<le> n"
    "trace (unlock P l c t (retry + 1) s1) = trace s1 @ map (\<lambda>e. EvUnlock l c (Some e)) errs
                       @ (if length errs < n then [EvUnlock l c None] else [])"
    "logged (unlock P l c t (retry + 1) s1) = logged s1
             @ (if length errs < n then []
                else [UnlockFailed t (storageType s1) unlockRetryCount (last errs)])"
    "heap (unlock P l c t (retry + 1) s1) = heap s1"
    "nextref (unlock P l c t (retry + 1) s1) = nextref s1"
    "tables (unlock P l c t (retry + 1) s1) = tables s1"
    "storageType (unlock P l c t (retry + 1) s1) = storageType s1"
    unfolding unlock_result_def by blast
  have "last (err # errs) = last errs" if "\<not> length errs < n"
    using that n by (cases errs) auto
  with e show ?thesis
    unfolding unlock_result_def u by (intro exI [of _ "err # errs"]) (auto simp: s1_def)
qed

lemma unlock_from_1: "unlock_result l c t 5 s (unlock P l c t 1 s)"
proof -
  have 5: "unlock_result l c t (Suc 0) s (unlock P l c t 5 s)" for s :: "('a, 'b) state"
    using unlock_last [of l c t s P] by (simp add: unlockRetryCount_def)
  have 4: "unlock_result l c t (Suc (Suc 0)) s (unlock P l c t 4 s)" for s :: "('a, 'b) state"
    by (rule unlock_step) (simp_all add: unlockRetryCount_def 5)
  have 3: "unlock_result l c t (Suc (Suc (Suc 0))) s (unlock P l c t 3 s)"
    for s :: "('a, 'b) state"
    by (rule unlock_step) (simp_all add: unlockRetryCount_def 4)
  have 2: "unlock_result l c t (Suc (Suc (Suc (Suc 0)))) s (unlock P l c t 2 s)"
    for s :: "('a, 'b) state"
    by (rule unlock_step) (simp_all add: unlockRetryCount_def 3)
  have 1: "unlock_result l c t (Suc (Suc (Suc (Suc (Suc 0))))) s (unlock P l c t 1 s)"
    by (rule unlock_step) (simp_all add: unlockRetryCount_def 2)
  have "Suc (Suc (Suc (Suc (Suc 0)))) = (5::nat)" by simp
  with 1 show ?thesis by simp
qed

lemma unlock_trace:
  "\<exists>us. trace (unlock P l c t 1 s) = trace s @ us \<and> (\<forall>e \<in> set us. is_Unlock e)"
proof -
  from unlock_from_1 [of l c t s P] obtain errs where
    "trace (unlock P l c t 1 s) = trace s @ map (\<lambda>e. EvUnlock l c (Some e)) errs
                       @ (if length errs < 5 then [EvUnlock l c None] else [])"
    unfolding unlock_result_def by blast
  then show ?thesis by auto
qed

lemma unlock_extends: "extends s (unlock P l c t 1 s)"
  using unlock_trace [of P l c t s] by (auto simp: extends_def)

lemma unlock_heap_tables:
  "heap (unlock P l c t 1 s) = heap s \<and> tables (unlock P l c t 1 s) = tables s"
  using unlock_from_1 [of l c t s P] unfolding unlock_result_def by blast

lemma calls_after_unlock:
  assumes "unlock_result l c t n s2 s3" and "trace s2 = trace s @ evs"
  shows "calls s s3 = filter (\<lambda>e. \<not> is_Unlock e) evs"
proof -
  from assms(1) obtain errs where
    "trace s3 = trace s2 @ map (\<lambda>e. EvUnlock l c (Some e)) errs
       @ (if length errs < n then [EvUnlock l c None] else [])"
    unfolding unlock_result_def by blast
  with assms(2) have "added s s3 = evs @ map (\<lambda>e. EvUnlock l c (Some e)) errs
       @ (if length errs < n then [EvUnlock l c None] else [])"
    by (simp add: added_def)
  then show ?thesis
    by (simp add: calls_def filter_empty_conv)
qed

section \<open>Evaluating the simulated environment\<close>

lemmas sim_defs = sim_ports_def sim_world_def desired_def sim_state_def sim_cached_def
  world_city_def world_country_def world_id_def city_diff_def no_diff_def sim_created_def

lemmas run_defs = call_def alloc_def call_GetTableSchema_def set_Version_def unlockRetryCount_def
  EnsureTable_def EnsureTable_diff_def EnsureTable_locked_def EnsureTable_apply_def
  getOrCreate_def getOrCreate_locked_def unlock.simps added_def calls_def

lemmas store_defs = Store_def Store_tx_def Insert_def Close_def rowsCount_def GetPayloadLen_def
  sim_pg_def world_five_def rows_of_def attempt_def skipped_def

lemmas fail_defs = ports_no_lock_def ports_no_version_def ports_no_fetch_def ports_no_rediff_def
  patch_calls_def

lemmas pair_defs = ports_no_typing_def world_pair_def pair_def

lemma restrict_compl_upd [simp]:
  "(m(k \<mapsto> v)) |` (- A) = (if k \<in> A then m |` (- A) else (m |` (- A))(k \<mapsto> v))"
  by (auto simp: restrict_map_def fun_eq_iff)

lemma sim_cached_diff:
  "Diff sim_ports (heap (sim_cached w v) 1) (heap (sim_cached w v) 0) = Inr city_diff"
  by (simp add: sim_defs)

lemma sim_city_diff_exists: "DiffExists sim_ports city_diff"
  by (simp add: sim_defs)

lemma sim_no_diff_exists: "\<not> DiffExists sim_ports no_diff"
  by (simp add: sim_defs)

lemma sim_cached_hit: "tables (sim_cached w v) (Name (heap (sim_cached w v) 0)) = Some 1"
  by (simp add: sim_defs)

lemma sim_created_hit: "tables sim_created (Name (heap sim_created 0)) = Some 0"
  by (simp add: sim_defs)

lemma sim_created_diff: "Diff sim_ports (heap sim_created 0) (heap sim_created 0) = Inr no_diff"
  by (simp add: sim_defs)

lemma sim_stale_city_result:
  "fst (EnsureTable sim_ports ''pg'' 0 (sim_cached world_city 1)) = Inr 2"
  by (simp add: sim_defs run_defs)

lemma sim_five_flat:
  "call (ProcessFilePayload sim_ports ''batch'' [] b) (\<lambda>_. EvProcessFilePayload ''batch'' [] b)
     (sim_state world_five)
   = (Inr [(desired, [11, 12, 13, 14, 15])],
      snd (call (ProcessFilePayload sim_ports ''batch'' [] b)
        (\<lambda>_. EvProcessFilePayload ''batch'' [] b) (sim_state world_five)))"
  by (simp add: call_eq sim_ports_def sim_state_def world_five_def sim_world_def)

lemma sim_five_groups:
  "alloc_groups [(desired, [11, 12, 13, 14, 15])]
     (snd (call (ProcessFilePayload sim_ports ''batch'' [] b)
        (\<lambda>_. EvProcessFilePayload ''batch'' [] b) (sim_state world_five)))
   = (five, snd (alloc_groups [(desired, [11, 12, 13, 14, 15])]
     (snd (call (ProcessFilePayload sim_ports ''batch'' [] b)
        (\<lambda>_. EvProcessFilePayload ''batch'' [] b) (sim_state world_five)))))"
  by (simp add: call_eq alloc_def sim_state_def five_def)

lemma sim_five_tables:
  "fst (Store_tables sim_ports (sim_pg b) five
     (snd (alloc_groups [(desired, [11, 12, 13, 14, 15])]
     (snd (call (ProcessFilePayload sim_ports ''batch'' [] b)
        (\<lambda>_. EvProcessFilePayload ''batch'' [] b) (sim_state world_five)))))) = None"
  by (simp add: sim_defs run_defs store_defs five_def)

lemma sim_five_break:
  "snd (fst (Store sim_ports (sim_pg True) ''batch'' [] (sim_state world_five)))
     = Some ''row rejected''
   \<and> filter (\<lambda>e. e = EvRollback 7 \<or> e = EvDirectCommit 7 None)
        (trace (snd (Store sim_ports (sim_pg True) ''batch'' [] (sim_state world_five))))
      = [EvRollback 7]"
  by (simp add: sim_defs run_defs store_defs)

lemma sim_five_skip:
  "snd (fst (Store sim_ports (sim_pg False) ''batch'' [] (sim_state world_five))) = None
   \<and> filter (\<lambda>e. e = EvRollback 7 \<or> e = EvDirectCommit 7 None)
        (trace (snd (Store sim_ports (sim_pg False) ''batch'' [] (sim_state world_five))))
      = [EvDirectCommit 7 None]
   \<and> logged (snd (Store sim_ports (sim_pg False) ''batch'' [] (sim_state world_five)))
      = [InsertSkipped ''pg'' 12 ''row rejected'']"
  by (simp add: sim_defs run_defs store_defs)

lemma sim_five_rejected:
  "EvInsertInTransaction 7 1 12 (Some ''row rejected'')
     \<in> set (added (sim_state world_five)
          (snd (Store_groups sim_ports (sim_pg False) 7 five (sim_state world_five))))"
  by (simp add: sim_defs run_defs store_defs five_def)

section \<open>Properties of the table helper\<close>

text \<open>
  Claim C3. When the table is in the cache and the diff of the cached schema against the
  desired one is empty, \<^verbatim>\<open>EnsureTable\<close> returns the cached object and leaves the state as it
  was: the world, the store and the cache are untouched and the trace gains no event, so
  neither \<^verbatim>\<open>Lock\<close>, \<^verbatim>\<open>GetVersion\<close>, \<^verbatim>\<open>IncrementVersion\<close> nor any call of the table manager
  was made.
\<close>

theorem EnsureTable_cached_no_diff:
  assumes "tables s (Name (heap s dataSchema)) = Some dbTableSchema"
    and "Diff P (heap s dbTableSchema) (heap s dataSchema) = Inr schemaDiff"
    and "\<not> DiffExists P schemaDiff"
  shows "EnsureTable P destinationName dataSchema s = (Inr dbTableSchema, s)
    \<and> added s (snd (EnsureTable P destinationName dataSchema s)) = []"
  using assms by (simp add: EnsureTable_def EnsureTable_diff_def added_def)

theorem EnsureTable_cached_no_diff_witness:
  "EnsureTable sim_ports ''dst'' 0 sim_created = (Inr 0, sim_created) \<and> trace sim_created = []"
  using EnsureTable_cached_no_diff [OF sim_created_hit sim_created_diff sim_no_diff_exists, of "''dst''"]
  by (simp add: sim_created_def sim_state_def)

lemma getOrCreate_locked_create:
  assumes alloc: "dataSchema < nextref s"
    and get: "GetTableSchema P (Name (heap s dataSchema)) (world s) = (Inr t, w2)"
    and absent: "\<not> Exists P t"
    and create: "CreateTable P (heap s dataSchema) w2 = (None, w3)"
    and incr: "IncrementVersion P destinationName (Name (heap s dataSchema)) w3 = (Inr ver, w4)"
  shows "getOrCreate_locked P destinationName dataSchema s =
    (Inr dataSchema,
     s\<lparr>world := w4,
       heap := (heap s)(nextref s := t, dataSchema := (heap s dataSchema)\<lparr>Version := ver\<rparr>),
       nextref := Suc (nextref s),
       trace := trace s @ [EvGetTableSchema (Name (heap s dataSchema)) (Inr t),
         EvCreateTable (heap s dataSchema) None,
         EvIncrementVersion destinationName (Name (heap s dataSchema)) (Inr ver)]\<rparr>)"
  using assms
  by (simp add: getOrCreate_locked_def call_GetTableSchema_def call_eq alloc_def set_Version_def)

text \<open>
  Claim C10. The table is not in the cache, the lock is granted, the destination has no
  such table, creating it and incrementing the version succeed (the counter returns
  \<open>ver\<close>), and the diff of a schema against itself is empty. Then \<^verbatim>\<open>getOrCreate\<close> and
  \<^verbatim>\<open>EnsureTable\<close> return the caller's own object; after the call it is the desired schema
  with the version \<open>ver\<close>, its columns are the desired ones, the cache holds it under the
  table's name, and the calls made, \<^verbatim>\<open>Unlock\<close> aside, are the lock, one fetch of the
  schema, the creation and the increment: the schema is not fetched again.
\<close>

theorem getOrCreate_creates_desired:
  assumes miss: "tables s (Name (heap s dataSchema)) = None"
    and alloc: "dataSchema < nextref s"
    and lock: "Lock P destinationName (Name (heap s dataSchema)) (world s) = (Inr (l, c), w1)"
    and get: "GetTableSchema P (Name (heap s dataSchema)) w1 = (Inr t, w2)"
    and absent: "\<not> Exists P t"
    and create: "CreateTable P (heap s dataSchema) w2 = (None, w3)"
    and incr: "IncrementVersion P destinationName (Name (heap s dataSchema)) w3 = (Inr ver, w4)"
    and self: "Diff P ((heap s dataSchema)\<lparr>Version := ver\<rparr>) ((heap s dataSchema)\<lparr>Version := ver\<rparr>)
        = Inr d"
    and empty: "\<not> DiffExists P d"
  shows "fst (getOrCreate P destinationName dataSchema s) = Inr dataSchema
    \<and> fst (EnsureTable P destinationName dataSchema s) = Inr dataSchema
    \<and> heap (snd (EnsureTable P destinationName dataSchema s)) dataSchema
        = (heap s dataSchema)\<lparr>Version := ver\<rparr>
    \<and> Columns (heap (snd (EnsureTable P destinationName dataSchema s)) dataSchema)
        = Columns (heap s dataSchema)
    \<and> tables (snd (EnsureTable P destinationName dataSchema s)) (Name (heap s dataSchema))
        = Some dataSchema
    \<and> calls s (snd (EnsureTable P destinationName dataSchema s))
        = [EvLock destinationName (Name (heap s dataSchema)) (Inr (l, c)),
           EvGetTableSchema (Name (heap s dataSchema)) (Inr t),
           EvCreateTable (heap s dataSchema) None,
           EvIncrementVersion destinationName (Name (heap s dataSchema)) (Inr ver)]"
proof -
  let ?n = "Name (heap s dataSchema)"
  define s1 where "s1 = s\<lparr>world := w1, trace := trace s @ [EvLock destinationName ?n (Inr (l, c))]\<rparr>"
  define s2 where "s2 = s1\<lparr>world := w4,
       heap := (heap s1)(nextref s1 := t, dataSchema := (heap s1 dataSchema)\<lparr>Version := ver\<rparr>),
       nextref := Suc (nextref s1),
       trace := trace s1 @ [EvGetTableSchema (Name (heap s1 dataSchema)) (Inr t),
         EvCreateTable (heap s1 dataSchema) None,
         EvIncrementVersion destinationName (Name (heap s1 dataSchema)) (Inr ver)]\<rparr>"
  define s3 where "s3 = unlock P l c ?n 1 s2"
  have body: "getOrCreate_locked P destinationName dataSchema s1 = (Inr dataSchema, s2)"
    unfolding s2_def
    by (rule getOrCreate_locked_create) (use assms in \<open>simp_all add: s1_def\<close>)
  have h1: "heap s1 = heap s"
    by (simp add: s1_def)
  have goc: "getOrCreate P destinationName dataSchema s = (Inr dataSchema, s3)"
    using lock body h1 by (simp add: getOrCreate_def call_eq s1_def [symmetric] s3_def)
  have u: "unlock_result l c ?n 5 s2 s3"
    unfolding s3_def by (rule unlock_from_1)
  then have frame: "heap s3 = heap s2" "tables s3 = tables s2"
    unfolding unlock_result_def by blast+
  have h2: "heap s2 dataSchema = (heap s dataSchema)\<lparr>Version := ver\<rparr>"
    by (simp add: s2_def s1_def)
  have t2: "tables s2 = tables s"
    by (simp add: s2_def s1_def)
  have et: "EnsureTable P destinationName dataSchema s
      = (Inr dataSchema, s3\<lparr>tables := (tables s3)(?n \<mapsto> dataSchema)\<rparr>)"
    using miss goc self empty by (simp add: EnsureTable_def EnsureTable_diff_def frame h2)
  have tr: "trace s2 = trace s @ [EvLock destinationName ?n (Inr (l, c)),
           EvGetTableSchema ?n (Inr t), EvCreateTable (heap s dataSchema) None,
           EvIncrementVersion destinationName ?n (Inr ver)]"
    by (simp add: s2_def s1_def)
  have "calls s (s3\<lparr>tables := (tables s3)(?n \<mapsto> dataSchema)\<rparr>) = calls s s3"
    by (simp add: calls_def added_def)
  also have "\<dots> = [EvLock destinationName ?n (Inr (l, c)),
           EvGetTableSchema ?n (Inr t), EvCreateTable (heap s dataSchema) None,
           EvIncrementVersion destinationName ?n (Inr ver)]"
    using calls_after_unlock [OF u tr] by simp
  finally show ?thesis
    using goc et frame h2 by simp
qed

theorem getOrCreate_creates_desired_witness:
  "fst (EnsureTable sim_ports ''dst'' 0 (sim_state sim_world)) = Inr 0
   \<and> heap (snd (EnsureTable sim_ports ''dst'' 0 (sim_state sim_world))) 0 = desired\<lparr>Version := 1\<rparr>
   \<and> tables (snd (EnsureTable sim_ports ''dst'' 0 (sim_state sim_world))) ''events'' = Some 0
   \<and> calls (sim_state sim_world) (snd (EnsureTable sim_ports ''dst'' 0 (sim_state sim_world)))
       = [EvLock ''dst'' ''events'' (Inr (1, 2)), EvGetTableSchema ''events'' (Inr no_diff),
          EvCreateTable desired None, EvIncrementVersion ''dst'' ''events'' (Inr 1)]"
proof -
  let ?s = "sim_state sim_world"
  have n: "Name (heap ?s 0) = ''events''" "heap ?s 0 = desired"
    by (simp_all add: sim_defs)
  have miss: "tables ?s (Name (heap ?s 0)) = None" and alloc: "0 < nextref ?s"
    by (simp_all add: sim_defs)
  have lock: "Lock sim_ports ''dst'' (Name (heap ?s 0)) (world ?s) = (Inr (1, 2), sim_world)"
    by (simp add: sim_defs)
  have get: "GetTableSchema sim_ports (Name (heap ?s 0)) sim_world = (Inr no_diff, sim_world)"
    by (simp add: sim_defs)
  have absent: "\<not> Exists sim_ports no_diff"
    by (simp add: sim_defs)
  have create: "CreateTable sim_ports (heap ?s 0) sim_world
      = (None, sim_world\<lparr>dest_columns := Columns desired\<rparr>)"
    by (simp add: sim_defs)
  have incr: "IncrementVersion sim_ports ''dst'' (Name (heap ?s 0))
      (sim_world\<lparr>dest_columns := Columns desired\<rparr>)
      = (Inr 1, sim_world\<lparr>dest_columns := Columns desired, dest_version := 1\<rparr>)"
    by (simp add: sim_defs)
  have self: "Diff sim_ports ((heap ?s 0)\<lparr>Version := 1\<rparr>) ((heap ?s 0)\<lparr>Version := 1\<rparr>) = Inr no_diff"
    by (simp add: sim_defs)
  from getOrCreate_creates_desired
    [OF miss alloc lock get absent create incr self sim_no_diff_exists]
  show ?thesis
    unfolding n by (simp add: desired_def)
qed

lemma EnsureTable_apply_none:
  "\<not> DiffExists P d \<Longrightarrow> EnsureTable_apply P dest db d s = (Inr db, s)"
  by (simp add: EnsureTable_apply_def)

lemma EnsureTable_apply_trace:
  "\<exists>evs. trace (snd (EnsureTable_apply P dest db d s)) = trace s @ evs
     \<and> (\<forall>e \<in> set evs. (\<exists>r. e = EvPatchTableSchema d r)
            \<or> (\<exists>n r. e = EvIncrementVersion dest n r))"
  by (auto simp: EnsureTable_apply_def call_eq split: option.splits sum.splits)

text \<open>
  Claim C2 at a failing input: the cache holds \<open>events\<close> with column \<open>id\<close> at version 1,
  the destination has the columns \<open>id\<close> and \<open>country\<close> at version 2, the desired schema
  has \<open>id\<close> and \<open>city\<close>. \<^verbatim>\<open>EnsureTable\<close> patches once and increments once; the object it
  returns (address 2) has the version 3 that the increment returned, and the column
  \<open>city\<close>. The cache still holds the old object (address 1), at version 1 and without
  \<open>city\<close>: after the re-fetch the code works on the new object and never stores it in
  \<^verbatim>\<open>th.tables\<close>.
\<close>

theorem EnsureTable_stale_cache_after_refetch:
  "fst (EnsureTable sim_ports ''dst'' 0 (sim_cached world_country 1)) = Inr 2
   \<and> filter is_mutation
        (added (sim_cached world_country 1)
           (snd (EnsureTable sim_ports ''dst'' 0 (sim_cached world_country 1))))
       = [EvPatchTableSchema city_diff None, EvIncrementVersion ''dst'' ''events'' (Inr 3)]
   \<and> Version (heap (snd (EnsureTable sim_ports ''dst'' 0 (sim_cached world_country 1))) 2) = 3
   \<and> Columns (heap (snd (EnsureTable sim_ports ''dst'' 0 (sim_cached world_country 1))) 2) ''city''
       = Some STRING
   \<and> tables (snd (EnsureTable sim_ports ''dst'' 0 (sim_cached world_country 1))) ''events'' = Some 1
   \<and> Version (heap (snd (EnsureTable sim_ports ''dst'' 0 (sim_cached world_country 1))) 1) = 1
   \<and> Columns (heap (snd (EnsureTable sim_ports ''dst'' 0 (sim_cached world_country 1))) 1) ''city''
       = None"
  by (simp add: sim_defs run_defs)

lemma EnsureTable_apply_extends: "EnsureTable_apply P dest db d s = (r, s1) \<Longrightarrow> extends s s1"
  using EnsureTable_apply_trace [of P dest db d s] by (auto simp: extends_def)

lemma EnsureTable_locked_extends:
  "EnsureTable_locked P dest ds db d s = (r, s1) \<Longrightarrow> extends s s1"
  by (auto simp: EnsureTable_locked_def set_Version_def Let_def
      split: prod.splits sum.splits if_splits
      dest!: call_extends' call_GetTableSchema_extends EnsureTable_apply_extends
      intro: extends_trans)

lemma getOrCreate_locked_extends:
  "getOrCreate_locked P dest ds s = (r, s1) \<Longrightarrow> extends s s1"
  by (auto simp: getOrCreate_locked_def set_Version_def
      split: prod.splits sum.splits option.splits if_splits
      dest!: call_extends' call_GetTableSchema_extends
      intro: extends_trans)

lemma getOrCreate_extends: "getOrCreate P dest ds s = (r, s1) \<Longrightarrow> extends s s1"
  by (auto simp: getOrCreate_def split: prod.splits sum.splits
      dest!: call_extends' getOrCreate_locked_extends
      intro: extends_trans unlock_extends)

lemma EnsureTable_diff_extends: "EnsureTable_diff P dest ds db s = (r, s1) \<Longrightarrow> extends s s1"
  by (auto simp: EnsureTable_diff_def split: prod.splits sum.splits if_splits
      dest!: call_extends' EnsureTable_locked_extends
      intro: extends_trans unlock_extends)

lemma EnsureTable_extends: "EnsureTable P dest ds s = (r, s1) \<Longrightarrow> extends s s1"
  by (auto simp: EnsureTable_def split: option.splits prod.splits sum.splits
      dest!: getOrCreate_extends EnsureTable_diff_extends
      intro: extends_trans)

subsection \<open>Every path of \<^verbatim>\<open>EnsureTable\<close> from line 50 on\<close>

lemma EnsureTable_apply_calls:
  assumes "DiffExists P d"
  shows "trace (snd (EnsureTable_apply P dest db d s))
      = trace s @ patch_calls P dest (Name (heap s db)) d (world s)
    \<and> nextref (snd (EnsureTable_apply P dest db d s)) = nextref s"
  using assms
  by (auto simp: EnsureTable_apply_def patch_calls_def call_eq split: option.splits sum.splits prod.splits)

lemma patch_calls_patch:
  "e \<in> set (patch_calls P dest n d w) \<Longrightarrow> is_patch e \<Longrightarrow> (\<exists>r. e = EvPatchTableSchema d r)"
  by (auto simp: patch_calls_def split: option.splits prod.splits)

lemma patch_calls_shape:
  "\<exists>r rest. patch_calls P dest n d w = EvPatchTableSchema d r # rest \<and> (\<forall>e \<in> set rest. \<not> is_patch e)
      \<and> (\<forall>e \<in> set rest. \<not> is_Unlock e)"
  by (auto simp: patch_calls_def split: option.splits prod.splits)

text \<open>The body under the lock, path by path.\<close>

lemma EnsureTable_locked_paths:
  fixes P :: "('w, 'c) ports" and s :: "('w, 'c) state" and db ds :: ref and dest :: string
    and d :: "'c Table"
  assumes alloc: "ds < nextref s"
    and ex: "DiffExists P d"
  defines "n \<equiv> Name (heap s db)" and "nd \<equiv> Name (heap s ds)"
  defines "body \<equiv> EnsureTable_locked P dest ds db d s"
  shows "(\<forall>e w2. GetVersion P dest n (world s) = (Inl e, w2) \<longrightarrow>
        fst body = Inl (''Error getting version of table '' @ nd @ '' in '' @ storageType s @ '': '' @ e)
        \<and> trace (snd body) = trace s @ [EvGetVersion dest n (Inl e)])
    \<and> (\<forall>ver w2. GetVersion P dest n (world s) = (Inr ver, w2) \<longrightarrow>
        (ver = Version (heap s db) \<longrightarrow>
           trace (snd body) = trace s @ EvGetVersion dest n (Inr ver) # patch_calls P dest n d w2)
        \<and> (ver \<noteq> Version (heap s db) \<longrightarrow>
           (\<forall>e w3. GetTableSchema P nd w2 = (Inl e, w3) \<longrightarrow>
              fst body = Inl (''Error getting table '' @ nd @ '' schema from '' @ storageType s @ '': '' @ e)
              \<and> trace (snd body) = trace s @ [EvGetVersion dest n (Inr ver), EvGetTableSchema nd (Inl e)])
           \<and> (\<forall>t w3. GetTableSchema P nd w2 = (Inr t, w3) \<longrightarrow>
              (\<forall>e. Diff P (t\<lparr>Version := ver\<rparr>) (heap s ds) = Inl e \<longrightarrow>
                 fst body = Inl e
                 \<and> trace (snd body) = trace s @ [EvGetVersion dest n (Inr ver), EvGetTableSchema nd (Inr t)])
              \<and> (\<forall>d'. Diff P (t\<lparr>Version := ver\<rparr>) (heap s ds) = Inr d' \<longrightarrow>
                 (\<not> DiffExists P d' \<longrightarrow>
                    fst body = Inr (nextref s)
                    \<and> heap (snd body) (nextref s) = t\<lparr>Version := ver\<rparr>
                    \<and> trace (snd body) = trace s @ [EvGetVersion dest n (Inr ver), EvGetTableSchema nd (Inr t)])
                 \<and> (DiffExists P d' \<longrightarrow>
                    trace (snd body) = trace s @ EvGetVersion dest n (Inr ver)
                      # EvGetTableSchema nd (Inr t) # patch_calls P dest (Name t) d' w3)))))"
proof (intro conjI allI impI)
  fix e w2 assume gv: "GetVersion P dest n (world s) = (Inl e, w2)"
  then show "fst body = Inl (''Error getting version of table '' @ nd @ '' in '' @ storageType s @ '': '' @ e)"
    "trace (snd body) = trace s @ [EvGetVersion dest n (Inl e)]"
    by (simp_all add: body_def EnsureTable_locked_def call_eq n_def nd_def)
next
  fix ver w2 assume gv: "GetVersion P dest n (world s) = (Inr ver, w2)"
  define s2 where "s2 = snd (call (GetVersion P dest n) (EvGetVersion dest n) s)"
  have f2: "heap s2 = heap s" "world s2 = w2" "trace s2 = trace s @ [EvGetVersion dest n (Inr ver)]"
    "nextref s2 = nextref s" "storageType s2 = storageType s"
    using gv by (simp_all add: s2_def call_eq)
  have c2: "call (GetVersion P dest (Name (heap s db))) (EvGetVersion dest (Name (heap s db))) s = (Inr ver, s2)"
    using gv by (simp add: s2_def call_eq n_def)
  {
    assume same: "ver = Version (heap s db)"
    have b: "body = EnsureTable_apply P dest db d s2"
      using c2 same f2 by (simp add: body_def EnsureTable_locked_def)
    show "trace (snd body) = trace s @ EvGetVersion dest n (Inr ver) # patch_calls P dest n d w2"
      unfolding b using EnsureTable_apply_calls [OF ex, of dest db s2] f2 by (simp add: n_def)
  }
  assume diff: "ver \<noteq> Version (heap s db)"
  define s3 where "s3 = snd (call (GetTableSchema P nd) (EvGetTableSchema nd) s2)"
  have f3: "heap s3 = heap s" "nextref s3 = nextref s" "storageType s3 = storageType s"
    "trace s3 = trace s @ [EvGetVersion dest n (Inr ver), EvGetTableSchema nd (fst (GetTableSchema P nd w2))]"
    "world s3 = snd (GetTableSchema P nd w2)"
    using f2 by (simp_all add: s3_def call_eq)
  have c3: "call (GetTableSchema P (Name (heap s2 ds))) (EvGetTableSchema (Name (heap s2 ds))) s2
      = (fst (GetTableSchema P nd w2), s3)"
    using f2 by (simp add: s3_def call_eq nd_def)
  {
    fix e w3 assume g: "GetTableSchema P nd w2 = (Inl e, w3)"
    have b: "body = (Inl (''Error getting table '' @ nd @ '' schema from '' @ storageType s @ '': '' @ e), s3)"
      using c2 c3 diff g f2 f3
      by (simp add: body_def EnsureTable_locked_def call_GetTableSchema_def nd_def)
    show "fst body = Inl (''Error getting table '' @ nd @ '' schema from '' @ storageType s @ '': '' @ e)"
      "trace (snd body) = trace s @ [EvGetVersion dest n (Inr ver), EvGetTableSchema nd (Inl e)]"
      using f3 g by (simp_all add: b)
  }
  fix t w3 assume g: "GetTableSchema P nd w2 = (Inr t, w3)"
  define s4 where "s4 = set_Version (nextref s) ver (snd (alloc t s3))"
  have f4: "heap s4 ds = heap s ds" "heap s4 (nextref s) = t\<lparr>Version := ver\<rparr>"
    "trace s4 = trace s @ [EvGetVersion dest n (Inr ver), EvGetTableSchema nd (Inr t)]"
    "world s4 = w3"
    using alloc f3 g by (simp_all add: s4_def alloc_def set_Version_def)
  have c4: "call_GetTableSchema P (Name (heap s2 ds)) s2 = (Inr (nextref s), snd (alloc t s3))"
    using c3 g f3 by (simp add: call_GetTableSchema_def alloc_def)
  have b: "body = (case Diff P (t\<lparr>Version := ver\<rparr>) (heap s ds) of
                 Inl err \<Rightarrow> (Inl err, s4)
               | Inr d' \<Rightarrow> EnsureTable_apply P dest (nextref s) d' s4)"
    using c2 c4 diff f2 f4 unfolding s4_def
    by (simp add: body_def EnsureTable_locked_def Let_def)
  {
    fix e assume "Diff P (t\<lparr>Version := ver\<rparr>) (heap s ds) = Inl e"
    then show "fst body = Inl e"
      "trace (snd body) = trace s @ [EvGetVersion dest n (Inr ver), EvGetTableSchema nd (Inr t)]"
      using f4 by (simp_all add: b)
  }
  fix d' assume d': "Diff P (t\<lparr>Version := ver\<rparr>) (heap s ds) = Inr d'"
  have b': "body = EnsureTable_apply P dest (nextref s) d' s4"
    using b d' by simp
  {
    assume "\<not> DiffExists P d'"
    then have "body = (Inr (nextref s), s4)"
      using b' by (simp add: EnsureTable_apply_none)
    then show "fst body = Inr (nextref s)" "heap (snd body) (nextref s) = t\<lparr>Version := ver\<rparr>"
      "trace (snd body) = trace s @ [EvGetVersion dest n (Inr ver), EvGetTableSchema nd (Inr t)]"
      using f4 by simp_all
  }
  assume ex': "DiffExists P d'"
  show "trace (snd body) = trace s @ EvGetVersion dest n (Inr ver)
                      # EvGetTableSchema nd (Inr t) # patch_calls P dest (Name t) d' w3"
    unfolding b' using EnsureTable_apply_calls [OF ex', of dest "nextref s" s4] f4 by simp
qed

lemma patch_calls_no_Unlock: "\<forall>e \<in> set (patch_calls P dest n d w). \<not> is_Unlock e"
  by (auto simp: patch_calls_def split: option.splits prod.splits)

lemma calls_unlock_id:
  assumes "trace s2 = trace s @ evs" and "\<forall>e \<in> set evs. \<not> is_Unlock e"
  shows "calls s (unlock P l c t 1 s2) = evs"
  using calls_after_unlock [OF unlock_from_1 assms(1)] assms(2)
  by (simp add: filter_id_conv)

lemma EnsureTable_diff_paths:
  fixes P :: "('w, 'c) ports" and s :: "('w, 'c) state" and db ds :: ref and dest :: string
    and d :: "'c Table"
  assumes alloc: "ds < nextref s"
    and diff: "Diff P (heap s db) (heap s ds) = Inr d"
    and ex: "DiffExists P d"
  defines "n \<equiv> Name (heap s db)" and "nd \<equiv> Name (heap s ds)"
  defines "res \<equiv> fst (EnsureTable_diff P dest ds db s)"
    and "s' \<equiv> snd (EnsureTable_diff P dest ds db s)"
  shows "take 1 (added s s') = [EvLock dest n (fst (Lock P dest n (world s)))]
    \<and> (\<forall>e w1. Lock P dest n (world s) = (Inl e, w1) \<longrightarrow>
        res = Inl (''System error locking table '' @ nd @ '' in '' @ storageType s @ '': '' @ e)
        \<and> added s s' = [EvLock dest n (Inl e)])
    \<and> (\<forall>l c w1. Lock P dest n (world s) = (Inr (l, c), w1) \<longrightarrow>
        (\<forall>e w2. GetVersion P dest n w1 = (Inl e, w2) \<longrightarrow>
           res = Inl (''Error getting version of table '' @ nd @ '' in '' @ storageType s @ '': '' @ e)
           \<and> calls s s' = [EvLock dest n (Inr (l, c)), EvGetVersion dest n (Inl e)])
        \<and> (\<forall>ver w2. GetVersion P dest n w1 = (Inr ver, w2) \<longrightarrow>
           (ver = Version (heap s db) \<longrightarrow>
              calls s s' = EvLock dest n (Inr (l, c)) # EvGetVersion dest n (Inr ver)
                # patch_calls P dest n d w2)
           \<and> (ver \<noteq> Version (heap s db) \<longrightarrow>
              (\<forall>e w3. GetTableSchema P nd w2 = (Inl e, w3) \<longrightarrow>
                 res = Inl (''Error getting table '' @ nd @ '' schema from '' @ storageType s
                            @ '': '' @ e)
                 \<and> calls s s' = [EvLock dest n (Inr (l, c)), EvGetVersion dest n (Inr ver),
                      EvGetTableSchema nd (Inl e)])
              \<and> (\<forall>t w3. GetTableSchema P nd w2 = (Inr t, w3) \<longrightarrow>
                 (\<forall>e. Diff P (t\<lparr>Version := ver\<rparr>) (heap s ds) = Inl e \<longrightarrow>
                    res = Inl e
                    \<and> calls s s' = [EvLock dest n (Inr (l, c)), EvGetVersion dest n (Inr ver),
                         EvGetTableSchema nd (Inr t)])
                 \<and> (\<forall>d'. Diff P (t\<lparr>Version := ver\<rparr>) (heap s ds) = Inr d' \<longrightarrow>
                    (\<not> DiffExists P d' \<longrightarrow>
                       res = Inr (nextref s)
                       \<and> heap s' (nextref s) = t\<lparr>Version := ver\<rparr>
                       \<and> calls s s' = [EvLock dest n (Inr (l, c)), EvGetVersion dest n (Inr ver),
                            EvGetTableSchema nd (Inr t)])
                    \<and> (DiffExists P d' \<longrightarrow>
                       calls s s' = EvLock dest n (Inr (l, c)) # EvGetVersion dest n (Inr ver)
                         # EvGetTableSchema nd (Inr t) # patch_calls P dest (Name t) d' w3))))))"
proof -
  have fail: "res = Inl (''System error locking table '' @ nd @ '' in '' @ storageType s @ '': '' @ e)
        \<and> added s s' = [EvLock dest n (Inl e)]"
    if "Lock P dest n (world s) = (Inl e, w1)" for e w1
    using that diff ex
    by (simp add: res_def s'_def EnsureTable_diff_def call_eq added_def n_def nd_def)
  have ok: "(\<forall>e w2. GetVersion P dest n w1 = (Inl e, w2) \<longrightarrow>
           res = Inl (''Error getting version of table '' @ nd @ '' in '' @ storageType s @ '': '' @ e)
           \<and> calls s s' = [EvLock dest n (Inr (l, c)), EvGetVersion dest n (Inl e)])
        \<and> (\<forall>ver w2. GetVersion P dest n w1 = (Inr ver, w2) \<longrightarrow>
           (ver = Version (heap s db) \<longrightarrow>
              calls s s' = EvLock dest n (Inr (l, c)) # EvGetVersion dest n (Inr ver)
                # patch_calls P dest n d w2)
           \<and> (ver \<noteq> Version (heap s db) \<longrightarrow>
              (\<forall>e w3. GetTableSchema P nd w2 = (Inl e, w3) \<longrightarrow>
                 res = Inl (''Error getting table '' @ nd @ '' schema from '' @ storageType s
                            @ '': '' @ e)
                 \<and> calls s s' = [EvLock dest n (Inr (l, c)), EvGetVersion dest n (Inr ver),
                      EvGetTableSchema nd (Inl e)])
              \<and> (\<forall>t w3. GetTableSchema P nd w2 = (Inr t, w3) \<longrightarrow>
                 (\<forall>e. Diff P (t\<lparr>Version := ver\<rparr>) (heap s ds) = Inl e \<longrightarrow>
                    res = Inl e
                    \<and> calls s s' = [EvLock dest n (Inr (l, c)), EvGetVersion dest n (Inr ver),
                         EvGetTableSchema nd (Inr t)])
                 \<and> (\<forall>d'. Diff P (t\<lparr>Version := ver\<rparr>) (heap s ds) = Inr d' \<longrightarrow>
                    (\<not> DiffExists P d' \<longrightarrow>
                       res = Inr (nextref s)
                       \<and> heap s' (nextref s) = t\<lparr>Version := ver\<rparr>
                       \<and> calls s s' = [EvLock dest n (Inr (l, c)), EvGetVersion dest n (Inr ver),
                            EvGetTableSchema nd (Inr t)])
                    \<and> (DiffExists P d' \<longrightarrow>
                       calls s s' = EvLock dest n (Inr (l, c)) # EvGetVersion dest n (Inr ver)
                         # EvGetTableSchema nd (Inr t) # patch_calls P dest (Name t) d' w3)))))"
    if lock: "Lock P dest n (world s) = (Inr (l, c), w1)" for l c w1
  proof -
    define s1 where "s1 = snd (call (Lock P dest n) (EvLock dest n) s)"
    define body where "body = EnsureTable_locked P dest ds db d s1"
    have f1: "heap s1 = heap s" "world s1 = w1" "trace s1 = trace s @ [EvLock dest n (Inr (l, c))]"
      "nextref s1 = nextref s" "storageType s1 = storageType s"
      using lock by (simp_all add: s1_def call_eq)
    have c1: "call (Lock P dest (Name (heap s db))) (EvLock dest (Name (heap s db))) s = (Inr (l, c), s1)"
      using lock by (simp add: s1_def call_eq n_def)
    have et: "EnsureTable_diff P dest ds db s = (fst body, unlock P l c nd 1 (snd body))"
      using diff ex c1 f1
      by (simp add: EnsureTable_diff_def body_def case_prod_beta nd_def)
    have r: "res = fst body" and s': "s' = unlock P l c nd 1 (snd body)"
      by (simp_all add: res_def s'_def et)
    have h: "heap s' = heap (snd body)"
      unfolding s' using unlock_heap_tables by blast
    have cl: "calls s s' = EvLock dest n (Inr (l, c)) # evs"
      if "trace (snd body) = trace s1 @ evs" "\<forall>e \<in> set evs. \<not> is_Unlock e" for evs
      unfolding s' using that f1 by (intro calls_unlock_id) simp_all
    note LP = EnsureTable_locked_paths [of ds s1 P d dest db, unfolded f1 body_def [symmetric],
        OF alloc ex]
    show ?thesis
    proof (intro conjI allI impI)
      fix e w2 assume g: "GetVersion P dest n w1 = (Inl e, w2)"
      with LP have "fst body = Inl (''Error getting version of table '' @ nd @ '' in '' @ storageType s @ '': '' @ e)"
        "trace (snd body) = trace s1 @ [EvGetVersion dest n (Inl e)]"
        unfolding n_def nd_def f1 by blast+
      then show "res = Inl (''Error getting version of table '' @ nd @ '' in '' @ storageType s @ '': '' @ e)"
        "calls s s' = [EvLock dest n (Inr (l, c)), EvGetVersion dest n (Inl e)]"
        using cl by (simp_all add: r)
    next
      fix ver w2 assume g: "GetVersion P dest n w1 = (Inr ver, w2)"
      {
        assume "ver = Version (heap s db)"
        with LP g have "trace (snd body) = trace s1 @ EvGetVersion dest n (Inr ver) # patch_calls P dest n d w2"
          unfolding n_def nd_def f1 by blast
        then show "calls s s' = EvLock dest n (Inr (l, c)) # EvGetVersion dest n (Inr ver)
                # patch_calls P dest n d w2"
          using cl patch_calls_no_Unlock [of P dest n d w2] by simp
      }
      assume ne: "ver \<noteq> Version (heap s db)"
      {
        fix e w3 assume f: "GetTableSchema P nd w2 = (Inl e, w3)"
        with LP g ne have "fst body = Inl (''Error getting table '' @ nd @ '' schema from '' @ storageType s @ '': '' @ e)"
          "trace (snd body) = trace s1 @ [EvGetVersion dest n (Inr ver), EvGetTableSchema nd (Inl e)]"
          unfolding n_def nd_def f1 by blast+
        then show "res = Inl (''Error getting table '' @ nd @ '' schema from '' @ storageType s
                            @ '': '' @ e)"
          "calls s s' = [EvLock dest n (Inr (l, c)), EvGetVersion dest n (Inr ver),
                      EvGetTableSchema nd (Inl e)]"
          using cl by (simp_all add: r)
      }
      fix t w3 assume f: "GetTableSchema P nd w2 = (Inr t, w3)"
      {
        fix e assume "Diff P (t\<lparr>Version := ver\<rparr>) (heap s ds) = Inl e"
        with LP g ne f have "fst body = Inl e"
          "trace (snd body) = trace s1 @ [EvGetVersion dest n (Inr ver), EvGetTableSchema nd (Inr t)]"
          unfolding n_def nd_def f1 by blast+
        then show "res = Inl e"
          "calls s s' = [EvLock dest n (Inr (l, c)), EvGetVersion dest n (Inr ver),
                         EvGetTableSchema nd (Inr t)]"
          using cl by (simp_all add: r)
      }
      fix d' assume d': "Diff P (t\<lparr>Version := ver\<rparr>) (heap s ds) = Inr d'"
      {
        assume "\<not> DiffExists P d'"
        with LP g ne f d' have "fst body = Inr (nextref s)"
          "heap (snd body) (nextref s) = t\<lparr>Version := ver\<rparr>"
          "trace (snd body) = trace s1 @ [EvGetVersion dest n (Inr ver), EvGetTableSchema nd (Inr t)]"
          unfolding n_def nd_def f1 by blast+
        then show "res = Inr (nextref s)" "heap s' (nextref s) = t\<lparr>Version := ver\<rparr>"
          "calls s s' = [EvLock dest n (Inr (l, c)), EvGetVersion dest n (Inr ver),
                            EvGetTableSchema nd (Inr t)]"
          using cl h by (simp_all add: r)
      }
      assume "DiffExists P d'"
      with LP g ne f d' have "trace (snd body) = trace s1 @ EvGetVersion dest n (Inr ver)
                      # EvGetTableSchema nd (Inr t) # patch_calls P dest (Name t) d' w3"
        unfolding n_def nd_def f1 by blast
      then show "calls s s' = EvLock dest n (Inr (l, c)) # EvGetVersion dest n (Inr ver)
                         # EvGetTableSchema nd (Inr t) # patch_calls P dest (Name t) d' w3"
        using cl patch_calls_no_Unlock [of P dest "Name t" d' w3] by simp
    qed
  qed
  have first: "take 1 (added s s') = [EvLock dest n (fst (Lock P dest n (world s)))]"
  proof -
    define s1 where "s1 = snd (call (Lock P dest n) (EvLock dest n) s)"
    have t1: "trace s1 = trace s @ [EvLock dest n (fst (Lock P dest n (world s)))]"
      by (simp add: s1_def call_eq)
    have "extends s1 s'"
    proof (cases "fst (Lock P dest n (world s))")
      case (Inl e)
      then have "s' = s1"
        using diff ex by (simp add: s'_def EnsureTable_diff_def call_eq s1_def n_def)
      then show ?thesis by simp
    next
      case (Inr lc)
      obtain l c where lc: "lc = (l, c)" by (cases lc)
      have "s' = unlock P l c nd 1 (snd (EnsureTable_locked P dest ds db d s1))"
        using diff ex Inr lc
        by (simp add: s'_def EnsureTable_diff_def call_eq s1_def n_def nd_def case_prod_beta)
      moreover have "extends s1 (snd (EnsureTable_locked P dest ds db d s1))"
        using EnsureTable_locked_extends [of P dest ds db d s1] by (simp add: prod_eq_iff)
      ultimately show ?thesis
        using unlock_extends extends_trans by metis
    qed
    then obtain evs where "trace s' = trace s1 @ evs"
      unfolding extends_def by blast
    then show ?thesis
      by (simp add: added_def t1)
  qed
  from first fail ok show ?thesis by blast
qed

lemma EnsureTable_locked_no_Unlock:
  "\<exists>evs. trace (snd (EnsureTable_locked P dest ds db d s)) = trace s @ evs
     \<and> (\<forall>e \<in> set evs. \<not> is_Unlock e)"
  by (auto simp: EnsureTable_locked_def EnsureTable_apply_def call_GetTableSchema_def call_eq
      alloc_def set_Version_def Let_def split: sum.splits option.splits)

text \<open>From line 50 on, the calls come first and the \<^verbatim>\<open>Unlock\<close> attempts last.\<close>

lemma EnsureTable_diff_added:
  "\<exists>us. added s (snd (EnsureTable_diff P dest ds db s))
        = calls s (snd (EnsureTable_diff P dest ds db s)) @ us
     \<and> (\<forall>e \<in> set us. is_Unlock e)"
proof -
  let ?n = "Name (heap s db)" and ?nd = "Name (heap s ds)"
  define s1 where "s1 = snd (call (Lock P dest ?n) (EvLock dest ?n) s)"
  have t1: "trace s1 = trace s @ [EvLock dest ?n (fst (Lock P dest ?n (world s)))]"
    "heap s1 = heap s"
    by (simp_all add: s1_def call_eq)
  consider "snd (EnsureTable_diff P dest ds db s) = s"
    | "snd (EnsureTable_diff P dest ds db s) = s1"
    | l c d where "snd (EnsureTable_diff P dest ds db s)
        = unlock P l c ?nd 1 (snd (EnsureTable_locked P dest ds db d s1))"
  proof (cases "Diff P (heap s db) (heap s ds)")
    case (Inl e)
    then show ?thesis using that(1) by (simp add: EnsureTable_diff_def)
  next
    case (Inr d)
    show ?thesis
    proof (cases "DiffExists P d")
      case False
      then show ?thesis using that(1) Inr by (simp add: EnsureTable_diff_def)
    next
      case True
      obtain lr w1 where lk: "Lock P dest ?n (world s) = (lr, w1)"
        by (cases "Lock P dest ?n (world s)")
      have c1: "call (Lock P dest ?n) (EvLock dest ?n) s = (lr, s1)"
        by (simp add: s1_def call_eq lk)
      show ?thesis
      proof (cases lr)
        case (Inl e)
        then show ?thesis using that(2) Inr True c1 by (simp add: EnsureTable_diff_def)
      next
        case lc: (Inr lc)
        obtain l c where "lc = (l, c)" by (cases lc)
        then have "snd (EnsureTable_diff P dest ds db s)
          = unlock P l c ?nd 1 (snd (EnsureTable_locked P dest ds db d s1))"
          using Inr True c1 lc t1(2) by (simp add: EnsureTable_diff_def case_prod_beta)
        then show ?thesis using that(3) by blast
      qed
    qed
  qed
  then show ?thesis
  proof cases
    case 1
    then show ?thesis by (simp add: added_def calls_def)
  next
    case 2
    then show ?thesis by (simp add: added_def calls_def t1)
  next
    case 3
    obtain evs where evs: "trace (snd (EnsureTable_locked P dest ds db d s1)) = trace s1 @ evs"
      "\<forall>e \<in> set evs. \<not> is_Unlock e"
      using EnsureTable_locked_no_Unlock by blast
    obtain us where us: "trace (unlock P l c ?nd 1 (snd (EnsureTable_locked P dest ds db d s1)))
        = trace (snd (EnsureTable_locked P dest ds db d s1)) @ us" "\<forall>e \<in> set us. is_Unlock e"
      using unlock_trace by blast
    have "added s (snd (EnsureTable_diff P dest ds db s))
        = (EvLock dest ?n (fst (Lock P dest ?n (world s))) # evs) @ us"
      unfolding 3 by (simp add: added_def us evs t1)
    moreover from this have "calls s (snd (EnsureTable_diff P dest ds db s))
        = EvLock dest ?n (fst (Lock P dest ?n (world s))) # evs"
      using evs(2) us(2) by (simp add: calls_def filter_id_conv filter_empty_conv)
    ultimately show ?thesis using us(2) by auto
  qed
qed

text \<open>From line 50 on: a patch is the call after a granted lock, a version read and, where
  that version is not the one of the schema in hand, a successful fetch; its diff is the
  one of that schema, or of the fetched one with the version read, against the desired
  schema.\<close>

lemma EnsureTable_diff_patches:
  fixes P :: "('w, 'c) ports" and s :: "('w, 'c) state" and db ds :: ref and dest :: string
  assumes alloc: "ds < nextref s"
  defines "n \<equiv> Name (heap s db)" and "nd \<equiv> Name (heap s ds)"
  defines "s' \<equiv> snd (EnsureTable_diff P dest ds db s)"
  shows "filter is_patch (added s s') = []
    \<or> (\<exists>l c ver mid pd r post T.
          added s s' = EvLock dest n (Inr (l, c)) # EvGetVersion dest n (Inr ver) # mid
            @ EvPatchTableSchema pd r # post
        \<and> filter is_patch post = []
        \<and> (mid = [] \<and> T = heap s db
           \<or> (\<exists>t. mid = [EvGetTableSchema nd (Inr t)] \<and> T = t\<lparr>Version := ver\<rparr>))
        \<and> Version T = ver
        \<and> Diff P T (heap s ds) = Inr pd \<and> DiffExists P pd)"
proof -
  obtain us where us: "added s s' = calls s s' @ us" "\<forall>e \<in> set us. is_Unlock e"
    unfolding s'_def using EnsureTable_diff_added by blast
  have nop: "filter is_patch us = []"
  proof -
    have "\<not> is_patch e" if "is_Unlock e" for e :: "'c event"
      using that by (cases e) simp_all
    with us(2) show ?thesis by (auto simp: filter_empty_conv)
  qed
  have none: ?thesis if "filter is_patch (calls s s') = []"
    using that nop by (simp add: us(1))
  have some: ?thesis
    if "calls s s' = EvLock dest n (Inr (l, c)) # EvGetVersion dest n (Inr ver) # mid
            @ patch_calls P dest m pd w"
      and "mid = [] \<and> T = heap s db
           \<or> (\<exists>t. mid = [EvGetTableSchema nd (Inr t)] \<and> T = t\<lparr>Version := ver\<rparr>)"
      and "Version T = ver" and "Diff P T (heap s ds) = Inr pd" and "DiffExists P pd"
    for l c ver mid m pd w T
  proof -
    obtain r rest where pc: "patch_calls P dest m pd w = EvPatchTableSchema pd r # rest"
      "\<forall>e \<in> set rest. \<not> is_patch e"
      using patch_calls_shape [of P dest m pd w] by auto
    have "added s s' = EvLock dest n (Inr (l, c)) # EvGetVersion dest n (Inr ver) # mid
            @ EvPatchTableSchema pd r # (rest @ us)"
      by (simp add: us(1) that(1) pc(1))
    moreover have "filter is_patch (rest @ us) = []"
      using pc(2) nop by (simp add: filter_empty_conv)
    ultimately show ?thesis using that(2-5) by blast
  qed
  show ?thesis
  proof (cases "Diff P (heap s db) (heap s ds)")
    case (Inl e)
    then have "s' = s" by (simp add: s'_def EnsureTable_diff_def)
    then show ?thesis by (simp add: added_def)
  next
    case (Inr d)
    show ?thesis
    proof (cases "DiffExists P d")
      case False
      then have "s' = s" using Inr by (simp add: s'_def EnsureTable_diff_def)
      then show ?thesis by (simp add: added_def)
    next
      case True
      note paths = EnsureTable_diff_paths [OF alloc Inr True, of dest,
          folded n_def nd_def s'_def]
      show ?thesis
      proof (cases "Lock P dest n (world s)")
        case (Pair lr w1)
        show ?thesis
        proof (cases lr)
          case (Inl e)
          with paths Pair have "added s s' = [EvLock dest n (Inl e)]"
            by blast
          then show ?thesis by simp
        next
          case lc: (Inr lc)
          obtain l c where lc': "lc = (l, c)" by (cases lc)
          have lock: "Lock P dest n (world s) = (Inr (l, c), w1)"
            using Pair lc lc' by simp
          show ?thesis
          proof (cases "GetVersion P dest n w1")
            case gv: (Pair vr w2)
            show ?thesis
            proof (cases vr)
              case (Inl e)
              with paths lock gv
              have "calls s s' = [EvLock dest n (Inr (l, c)), EvGetVersion dest n (Inl e)]"
                by blast
              then show ?thesis by (intro none) simp
            next
              case (Inr ver)
              have gv': "GetVersion P dest n w1 = (Inr ver, w2)"
                using gv Inr by simp
              show ?thesis
              proof (cases "ver = Version (heap s db)")
                case same: True
                with paths lock gv'
                have c: "calls s s' = EvLock dest n (Inr (l, c)) # EvGetVersion dest n (Inr ver)
                    # [] @ patch_calls P dest n d w2"
                  by simp
                show ?thesis
                  by (rule some [OF c, where T = "heap s db"])
                    (simp_all add: same \<open>Diff P (heap s db) (heap s ds) = Inr d\<close> True)
              next
                case ne: False
                show ?thesis
                proof (cases "GetTableSchema P nd w2")
                  case gt: (Pair tr w3)
                  show ?thesis
                  proof (cases tr)
                    case (Inl e)
                    with paths lock gv' ne gt
                    have "calls s s' = [EvLock dest n (Inr (l, c)), EvGetVersion dest n (Inr ver),
                        EvGetTableSchema nd (Inl e)]"
                      by blast
                    then show ?thesis by (intro none) simp
                  next
                    case t: (Inr t)
                    have gt': "GetTableSchema P nd w2 = (Inr t, w3)"
                      using gt t by simp
                    show ?thesis
                    proof (cases "Diff P (t\<lparr>Version := ver\<rparr>) (heap s ds)")
                      case (Inl e)
                      with paths lock gv' ne gt'
                      have "calls s s' = [EvLock dest n (Inr (l, c)),
                          EvGetVersion dest n (Inr ver), EvGetTableSchema nd (Inr t)]"
                        by blast
                      then show ?thesis by (intro none) simp
                    next
                      case d': (Inr d')
                      show ?thesis
                      proof (cases "DiffExists P d'")
                        case False
                        with paths lock gv' ne gt' d'
                        have "calls s s' = [EvLock dest n (Inr (l, c)),
                            EvGetVersion dest n (Inr ver), EvGetTableSchema nd (Inr t)]"
                          by blast
                        then show ?thesis by (intro none) simp
                      next
                        case ex': True
                        with paths lock gv' ne gt' d'
                        have c: "calls s s' = EvLock dest n (Inr (l, c))
                            # EvGetVersion dest n (Inr ver)
                            # [EvGetTableSchema nd (Inr t)] @ patch_calls P dest (Name t) d' w3"
                          by simp
                        show ?thesis
                          by (rule some [OF c, where T = "t\<lparr>Version := ver\<rparr>"])
                            (simp_all add: d' ex')
                      qed
                    qed
                  qed
                qed
              qed
            qed
          qed
        qed
      qed
    qed
  qed
qed

lemma Version_self: "\<exists>v. (t :: 'c Table) = t\<lparr>Version := v\<rparr>"
  by (rule exI [of _ "Version t"]) simp

lemma is_Unlock_not_patch: "is_Unlock e \<Longrightarrow> \<not> is_patch e"
  by (cases e) simp_all

text \<open>\<^verbatim>\<open>getOrCreate\<close> patches nothing, and writes to the caller's object its version
  only.\<close>

lemma getOrCreate_locked_frame:
  assumes "ds < nextref s"
  shows "nextref s \<le> nextref (snd (getOrCreate_locked P dest ds s))
    \<and> (\<exists>v. heap (snd (getOrCreate_locked P dest ds s)) ds = (heap s ds)\<lparr>Version := v\<rparr>)
    \<and> (\<exists>evs. trace (snd (getOrCreate_locked P dest ds s)) = trace s @ evs
          \<and> filter is_patch evs = [])"
  using assms
  by (auto simp: getOrCreate_locked_def call_GetTableSchema_def call_eq alloc_def
      set_Version_def Let_def Version_self split: sum.splits option.splits)

lemma getOrCreate_frame:
  assumes alloc: "ds < nextref s"
  shows "nextref s \<le> nextref (snd (getOrCreate P dest ds s))
    \<and> (\<exists>v. heap (snd (getOrCreate P dest ds s)) ds = (heap s ds)\<lparr>Version := v\<rparr>)
    \<and> filter is_patch (added s (snd (getOrCreate P dest ds s))) = []"
proof -
  let ?n = "Name (heap s ds)"
  define s1 where "s1 = snd (call (Lock P dest ?n) (EvLock dest ?n) s)"
  have t1: "trace s1 = trace s @ [EvLock dest ?n (fst (Lock P dest ?n (world s)))]"
    "heap s1 = heap s" "nextref s1 = nextref s"
    by (simp_all add: s1_def call_eq)
  obtain lr w1 where lk: "Lock P dest ?n (world s) = (lr, w1)"
    by (cases "Lock P dest ?n (world s)")
  have c1: "call (Lock P dest ?n) (EvLock dest ?n) s = (lr, s1)"
    by (simp add: s1_def call_eq lk)
  show ?thesis
  proof (cases lr)
    case (Inl e)
    then have "snd (getOrCreate P dest ds s) = s1"
      using c1 by (simp add: getOrCreate_def)
    then show ?thesis by (simp add: t1 added_def Version_self)
  next
    case lc: (Inr lc)
    obtain l c where lc': "lc = (l, c)" by (cases lc)
    define s2 where "s2 = snd (getOrCreate_locked P dest ds s1)"
    have s': "snd (getOrCreate P dest ds s) = unlock P l c ?n 1 s2"
      using c1 lc lc' t1(2) by (simp add: getOrCreate_def case_prod_beta s2_def)
    from getOrCreate_locked_frame [of ds s1 P dest] alloc
    obtain v evs where f: "nextref s1 \<le> nextref s2" "heap s2 ds = (heap s1 ds)\<lparr>Version := v\<rparr>"
      "trace s2 = trace s1 @ evs" "filter is_patch evs = []"
      unfolding s2_def t1(3) by blast
    from unlock_from_1 [of l c ?n s2 P]
    have u: "heap (unlock P l c ?n 1 s2) = heap s2" "nextref (unlock P l c ?n 1 s2) = nextref s2"
      unfolding unlock_result_def by auto
    obtain us where us: "trace (unlock P l c ?n 1 s2) = trace s2 @ us" "\<forall>e \<in> set us. is_Unlock e"
      using unlock_trace by blast
    have "filter is_patch us = []"
      using us(2) is_Unlock_not_patch by (auto simp: filter_empty_conv)
    then have "filter is_patch (added s (unlock P l c ?n 1 s2)) = []"
      using f(4) by (simp add: added_def us(1) f(3) t1(1))
    then show ?thesis
      unfolding s' u using f(1,2) t1(2,3) by auto
  qed
qed

lemma added_trans: "extends s s0 \<Longrightarrow> extends s0 s' \<Longrightarrow> added s s' = added s s0 @ added s0 s'"
  by (auto simp: extends_def added_def)

text \<open>
  Claim C1. The desired schema is an object of the store; nothing else is assumed, so every
  run of \<^verbatim>\<open>EnsureTable\<close> is covered, the failing ones too. If the table is not cached and
  \<^verbatim>\<open>getOrCreate\<close> fails, nothing is patched. Otherwise let \<open>db\<close> be the schema in hand, the
  cached one or the one \<^verbatim>\<open>getOrCreate\<close> returned, and \<open>s0\<close> the state at line 50. Nothing
  was patched before line 50, and from there at most one patch is made: it is the call
  that follows a granted lock, a successful reading \<open>ver\<close> of the version counter and, in
  between, either nothing, and then \<open>ver\<close> is the version of the schema in hand and the
  diff patched is the one of that schema against the desired one; or a successful fetch
  of a table \<open>t\<close>, and then the diff patched is the one of \<open>t\<close> with version \<open>ver\<close> against
  the desired schema. So no diff is applied on a path where the lock, the reading of the
  version, the fetch or the second diff failed, and none that was computed against a
  schema whose version is not the one read.

  When the diff of the schema in hand against the desired one is \<open>d\<close> and not empty, the
  run is, path by path: the first call is \<^verbatim>\<open>Lock\<close>; if it fails, the error is returned
  and nothing else is called. If the reading of the version fails, its error is returned
  after these two calls. If the version read is that of the schema in hand, \<open>d\<close> is
  applied without a fetch. If it is not, the schema is fetched; a failing fetch and a
  failing second diff return their errors with nothing patched; an empty second diff
  returns the new table object, holding \<open>t\<close> with version \<open>ver\<close>, with no patch and no
  increment; a second diff that is not empty is the one applied. \<open>calls\<close> leaves out the
  attempts of the deferred \<^verbatim>\<open>unlock\<close>, which come last.
\<close>

theorem EnsureTable_reconciles_before_patching:
  fixes P :: "('w, 'c) ports" and s s0 :: "('w, 'c) state" and dataSchema db :: ref
    and dest :: string
  assumes alloc: "dataSchema < nextref s"
  defines "n \<equiv> Name (heap s0 db)" and "nd \<equiv> Name (heap s0 dataSchema)"
  defines "res \<equiv> fst (EnsureTable P dest dataSchema s)"
    and "s' \<equiv> snd (EnsureTable P dest dataSchema s)"
  shows "(tables s (Name (heap s dataSchema)) = None
        \<and> (\<exists>e s1. getOrCreate P dest dataSchema s = (Inl e, s1))
      \<longrightarrow> filter is_patch (added s s') = [])
    \<and> (tables s (Name (heap s dataSchema)) = Some db \<and> s0 = s
        \<or> tables s (Name (heap s dataSchema)) = None
          \<and> (\<exists>s1. getOrCreate P dest dataSchema s = (Inr db, s1)
                \<and> s0 = s1\<lparr>tables := (tables s1)(Name (heap s1 db) \<mapsto> db)\<rparr>)
      \<longrightarrow> added s s' = added s s0 @ added s0 s'
        \<and> filter is_patch (added s s0) = []
        \<and> (filter is_patch (added s0 s') = []
           \<or> (\<exists>l c ver mid pd r post T.
                 added s0 s' = EvLock dest n (Inr (l, c)) # EvGetVersion dest n (Inr ver) # mid
                   @ EvPatchTableSchema pd r # post
               \<and> filter is_patch post = []
               \<and> (mid = [] \<and> T = heap s0 db
                  \<or> (\<exists>t. mid = [EvGetTableSchema nd (Inr t)] \<and> T = t\<lparr>Version := ver\<rparr>))
               \<and> Version T = ver
               \<and> Diff P T (heap s0 dataSchema) = Inr pd \<and> DiffExists P pd))
        \<and> (\<forall>d. Diff P (heap s0 db) (heap s0 dataSchema) = Inr d \<and> DiffExists P d \<longrightarrow>
            take 1 (added s0 s') = [EvLock dest n (fst (Lock P dest n (world s0)))]
          \<and> (\<forall>e w1. Lock P dest n (world s0) = (Inl e, w1) \<longrightarrow>
              res = Inl (''System error locking table '' @ nd @ '' in '' @ storageType s0
                         @ '': '' @ e)
              \<and> added s0 s' = [EvLock dest n (Inl e)])
          \<and> (\<forall>l c w1. Lock P dest n (world s0) = (Inr (l, c), w1) \<longrightarrow>
              (\<forall>e w2. GetVersion P dest n w1 = (Inl e, w2) \<longrightarrow>
                 res = Inl (''Error getting version of table '' @ nd @ '' in ''
                            @ storageType s0 @ '': '' @ e)
                 \<and> calls s0 s' = [EvLock dest n (Inr (l, c)), EvGetVersion dest n (Inl e)])
              \<and> (\<forall>ver w2. GetVersion P dest n w1 = (Inr ver, w2) \<longrightarrow>
                 (ver = Version (heap s0 db) \<longrightarrow>
                    calls s0 s' = EvLock dest n (Inr (l, c)) # EvGetVersion dest n (Inr ver)
                      # patch_calls P dest n d w2)
                 \<and> (ver \<noteq> Version (heap s0 db) \<longrightarrow>
                    (\<forall>e w3. GetTableSchema P nd w2 = (Inl e, w3) \<longrightarrow>
                       res = Inl (''Error getting table '' @ nd @ '' schema from ''
                                  @ storageType s0 @ '': '' @ e)
                       \<and> calls s0 s' = [EvLock dest n (Inr (l, c)), EvGetVersion dest n (Inr ver),
                            EvGetTableSchema nd (Inl e)])
                    \<and> (\<forall>t w3. GetTableSchema P nd w2 = (Inr t, w3) \<longrightarrow>
                       (\<forall>e. Diff P (t\<lparr>Version := ver\<rparr>) (heap s0 dataSchema) = Inl e \<longrightarrow>
                          res = Inl e
                          \<and> calls s0 s' = [EvLock dest n (Inr (l, c)),
                               EvGetVersion dest n (Inr ver), EvGetTableSchema nd (Inr t)])
                       \<and> (\<forall>d'. Diff P (t\<lparr>Version := ver\<rparr>) (heap s0 dataSchema) = Inr d' \<longrightarrow>
                          (\<not> DiffExists P d' \<longrightarrow>
                             res = Inr (nextref s0)
                             \<and> heap s' (nextref s0) = t\<lparr>Version := ver\<rparr>
                             \<and> calls s0 s' = [EvLock dest n (Inr (l, c)),
                                  EvGetVersion dest n (Inr ver), EvGetTableSchema nd (Inr t)])
                          \<and> (DiffExists P d' \<longrightarrow>
                             calls s0 s' = EvLock dest n (Inr (l, c))
                               # EvGetVersion dest n (Inr ver)
                               # EvGetTableSchema nd (Inr t)
                               # patch_calls P dest (Name t) d' w3))))))))"
    (is "(?fail \<longrightarrow> ?none) \<and> (?start \<longrightarrow> ?split \<and> ?before \<and> ?patches \<and> ?paths)")
proof (intro conjI impI)
  assume ?fail
  then obtain e s1 where "tables s (Name (heap s dataSchema)) = None"
    "getOrCreate P dest dataSchema s = (Inl e, s1)"
    by blast
  then have "s' = snd (getOrCreate P dest dataSchema s)"
    by (simp add: s'_def EnsureTable_def)
  then show ?none
    using getOrCreate_frame [OF alloc, of P dest] by simp
next
  assume start: ?start
  have et: "EnsureTable P dest dataSchema s = EnsureTable_diff P dest dataSchema db s0"
    using start by (auto simp: EnsureTable_def)
  have pre: "dataSchema < nextref s0 \<and> extends s s0 \<and> filter is_patch (added s s0) = []"
    using start
  proof (elim disjE conjE exE)
    assume "s0 = s"
    then show ?thesis using alloc by (simp add: added_def)
  next
    fix s1
    assume g: "getOrCreate P dest dataSchema s = (Inr db, s1)"
      and s0: "s0 = s1\<lparr>tables := (tables s1)(Name (heap s1 db) \<mapsto> db)\<rparr>"
    from getOrCreate_frame [OF alloc, of P dest] g
    have "nextref s \<le> nextref s1" "filter is_patch (added s s1) = []"
      by simp_all
    moreover have "extends s s1"
      using g by (rule getOrCreate_extends)
    ultimately show ?thesis
      using alloc by (simp add: s0 added_def)
  qed
  have ext: "extends s0 s'"
    using EnsureTable_diff_extends [of P dest dataSchema db s0 res s']
    by (simp add: et res_def s'_def)
  show ?split
    using pre ext by (intro added_trans) simp_all
  show ?before
    using pre by simp
  show ?patches
    using EnsureTable_diff_patches [of dataSchema s0 P dest db] pre
    by (simp add: s'_def et n_def nd_def)
  show ?paths
    using EnsureTable_diff_paths [of dataSchema s0 P db _ dest] pre
    unfolding s'_def res_def et n_def nd_def by blast
qed

theorem EnsureTable_reconciles_before_patching_witness:
  "fst (EnsureTable ports_no_lock ''dst'' 0 (sim_cached world_id 1))
      = Inl ''System error locking table events in postgres: lock service unavailable''
   \<and> added (sim_cached world_id 1) (snd (EnsureTable ports_no_lock ''dst'' 0 (sim_cached world_id 1)))
      = [EvLock ''dst'' ''events'' (Inl ''lock service unavailable'')]
   \<and> fst (EnsureTable ports_no_version ''dst'' 0 (sim_cached world_id 1))
      = Inl ''Error getting version of table events in postgres: counter unreachable''
   \<and> calls (sim_cached world_id 1)
        (snd (EnsureTable ports_no_version ''dst'' 0 (sim_cached world_id 1)))
      = [EvLock ''dst'' ''events'' (Inr (1, 2)),
         EvGetVersion ''dst'' ''events'' (Inl ''counter unreachable'')]
   \<and> calls (sim_cached world_id 1) (snd (EnsureTable sim_ports ''dst'' 0 (sim_cached world_id 1)))
      = [EvLock ''dst'' ''events'' (Inr (1, 2)), EvGetVersion ''dst'' ''events'' (Inr 1),
         EvPatchTableSchema city_diff None, EvIncrementVersion ''dst'' ''events'' (Inr 2)]
   \<and> fst (EnsureTable ports_no_fetch ''dst'' 0 (sim_cached world_city 1))
      = Inl ''Error getting table events schema from postgres: connection reset''
   \<and> calls (sim_cached world_city 1)
        (snd (EnsureTable ports_no_fetch ''dst'' 0 (sim_cached world_city 1)))
      = [EvLock ''dst'' ''events'' (Inr (1, 2)), EvGetVersion ''dst'' ''events'' (Inr 2),
         EvGetTableSchema ''events'' (Inl ''connection reset'')]
   \<and> fst (EnsureTable ports_no_rediff ''dst'' 0 (sim_cached world_city 1))
      = Inl ''column type changed''
   \<and> calls (sim_cached world_city 1)
        (snd (EnsureTable ports_no_rediff ''dst'' 0 (sim_cached world_city 1)))
      = [EvLock ''dst'' ''events'' (Inr (1, 2)), EvGetVersion ''dst'' ''events'' (Inr 2),
         EvGetTableSchema ''events''
           (Inr \<lparr>Name = ''events'', Columns = [''id'' \<mapsto> INT64, ''city'' \<mapsto> STRING], Version = 0\<rparr>)]
   \<and> fst (EnsureTable sim_ports ''dst'' 0 (sim_cached world_city 1)) = Inr 2
   \<and> heap (snd (EnsureTable sim_ports ''dst'' 0 (sim_cached world_city 1))) 2
       = \<lparr>Name = ''events'', Columns = [''id'' \<mapsto> INT64, ''city'' \<mapsto> STRING], Version = 2\<rparr>
   \<and> calls (sim_cached world_city 1) (snd (EnsureTable sim_ports ''dst'' 0 (sim_cached world_city 1)))
       = [EvLock ''dst'' ''events'' (Inr (1, 2)), EvGetVersion ''dst'' ''events'' (Inr 2),
          EvGetTableSchema ''events''
            (Inr \<lparr>Name = ''events'', Columns = [''id'' \<mapsto> INT64, ''city'' \<mapsto> STRING], Version = 0\<rparr>)]
   \<and> calls (sim_cached world_country 1)
        (snd (EnsureTable sim_ports ''dst'' 0 (sim_cached world_country 1)))
       = [EvLock ''dst'' ''events'' (Inr (1, 2)), EvGetVersion ''dst'' ''events'' (Inr 2),
          EvGetTableSchema ''events''
            (Inr \<lparr>Name = ''events'', Columns = [''id'' \<mapsto> INT64, ''country'' \<mapsto> STRING],
                  Version = 0\<rparr>),
          EvPatchTableSchema city_diff None, EvIncrementVersion ''dst'' ''events'' (Inr 3)]
   \<and> filter is_patch
        (added (sim_state world_id) (snd (EnsureTable ports_no_lock ''dst'' 0 (sim_state world_id))))
       = []
   \<and> calls (sim_state world_id) (snd (EnsureTable sim_ports ''dst'' 0 (sim_state world_id)))
       = [EvLock ''dst'' ''events'' (Inr (1, 2)),
          EvGetTableSchema ''events''
            (Inr \<lparr>Name = ''events'', Columns = [''id'' \<mapsto> INT64], Version = 0\<rparr>),
          EvGetVersion ''dst'' ''events'' (Inr 1),
          EvLock ''dst'' ''events'' (Inr (1, 2)), EvGetVersion ''dst'' ''events'' (Inr 1),
          EvPatchTableSchema city_diff None, EvIncrementVersion ''dst'' ''events'' (Inr 2)]"
proof -
  let ?city = "\<lparr>Name = ''events'', Columns = [''id'' \<mapsto> INT64, ''city'' \<mapsto> STRING], Version = 0\<rparr>"
  let ?country = "\<lparr>Name = ''events'', Columns = [''id'' \<mapsto> INT64, ''country'' \<mapsto> STRING],
                  Version = 0\<rparr>"
  have alloc: "0 < nextref (sim_cached w v)" for w v
    by (simp add: sim_defs)
  have names: "Name (heap (sim_cached w v) 1) = ''events''"
    "Name (heap (sim_cached w v) 0) = ''events''"
    "nextref (sim_cached w v) = 2" "storageType (sim_cached w v) = ''postgres''"
    "world (sim_cached w v) = w" for w v
    by (simp_all add: sim_defs)
  have hit: "tables (sim_cached w v) (Name (heap (sim_cached w v) 0)) = Some 1
      \<and> sim_cached w v = sim_cached w v" for w v
    by (simp add: sim_defs)
  have diff: "Diff P (heap (sim_cached w 1) 1) (heap (sim_cached w 1) 0) = Inr city_diff
      \<and> DiffExists P city_diff"
    if "P = sim_ports \<or> P = ports_no_lock \<or> P = ports_no_version \<or> P = ports_no_fetch
      \<or> P = ports_no_rediff"
    for P w
    using that by (auto simp: sim_defs fail_defs)
  have stale: "(2::int) \<noteq> Version (heap (sim_cached w 1) 1)"
    and current: "(1::int) = Version (heap (sim_cached w 1) 1)" for w
    by (simp_all add: sim_defs)
  have lock: "Lock P ''dst'' ''events'' w = (Inr (1, 2), w)"
    if "P = sim_ports \<or> P = ports_no_version \<or> P = ports_no_fetch \<or> P = ports_no_rediff"
    for P w
    using that by (auto simp: sim_defs fail_defs)
  have gv: "GetVersion P ''dst'' ''events'' w = (Inr (dest_version w), w)"
    if "P = sim_ports \<or> P = ports_no_fetch \<or> P = ports_no_rediff"
    for P w
    using that by (auto simp: sim_defs fail_defs)
  have v: "dest_version world_id = 1" "dest_version world_city = 2" "dest_version world_country = 2"
    by (simp_all add: sim_defs)
  note from_cache = EnsureTable_reconciles_before_patching
    [where dataSchema = 0 and dest = "''dst''", OF alloc, THEN conjunct2, THEN mp,
      OF disjI1, OF hit, unfolded names]
  note paths = from_cache [THEN conjunct2, THEN conjunct2, THEN conjunct2, rule_format, OF diff]

  have "Lock ports_no_lock ''dst'' ''events'' world_id = (Inl ''lock service unavailable'', world_id)"
    by (simp add: fail_defs sim_defs)
  from paths [THEN conjunct2, THEN conjunct1, rule_format, OF _ this]
  have a: "fst (EnsureTable ports_no_lock ''dst'' 0 (sim_cached world_id 1))
      = Inl ''System error locking table events in postgres: lock service unavailable''
   \<and> added (sim_cached world_id 1) (snd (EnsureTable ports_no_lock ''dst'' 0 (sim_cached world_id 1)))
      = [EvLock ''dst'' ''events'' (Inl ''lock service unavailable'')]"
    by simp

  note locked = paths [THEN conjunct2, THEN conjunct2, rule_format, OF _ lock]
  have "GetVersion ports_no_version ''dst'' ''events'' world_id
      = (Inl ''counter unreachable'', world_id)"
    by (simp add: fail_defs sim_defs)
  from locked [THEN conjunct1, rule_format, OF _ _ this]
  have b: "fst (EnsureTable ports_no_version ''dst'' 0 (sim_cached world_id 1))
      = Inl ''Error getting version of table events in postgres: counter unreachable''
   \<and> calls (sim_cached world_id 1)
        (snd (EnsureTable ports_no_version ''dst'' 0 (sim_cached world_id 1)))
      = [EvLock ''dst'' ''events'' (Inr (1, 2)),
         EvGetVersion ''dst'' ''events'' (Inl ''counter unreachable'')]"
    by simp

  note versioned = locked [THEN conjunct2, rule_format, OF _ _ gv]
  from versioned [where w = world_id and P = sim_ports, unfolded v, THEN conjunct1, THEN mp,
      OF _ _ _ current]
  have c: "calls (sim_cached world_id 1) (snd (EnsureTable sim_ports ''dst'' 0 (sim_cached world_id 1)))
      = [EvLock ''dst'' ''events'' (Inr (1, 2)), EvGetVersion ''dst'' ''events'' (Inr 1),
         EvPatchTableSchema city_diff None, EvIncrementVersion ''dst'' ''events'' (Inr 2)]"
    by (simp add: fail_defs sim_defs)

  note refetch = versioned [where w = world_city, unfolded v, THEN conjunct2, THEN mp,
      OF _ _ _ stale]
  have "GetTableSchema ports_no_fetch ''events'' world_city = (Inl ''connection reset'', world_city)"
    by (simp add: fail_defs sim_defs)
  from refetch [THEN conjunct1, rule_format, OF _ _ _ this]
  have d: "fst (EnsureTable ports_no_fetch ''dst'' 0 (sim_cached world_city 1))
      = Inl ''Error getting table events schema from postgres: connection reset''
   \<and> calls (sim_cached world_city 1)
        (snd (EnsureTable ports_no_fetch ''dst'' 0 (sim_cached world_city 1)))
      = [EvLock ''dst'' ''events'' (Inr (1, 2)), EvGetVersion ''dst'' ''events'' (Inr 2),
         EvGetTableSchema ''events'' (Inl ''connection reset'')]"
    by simp

  have fetch: "GetTableSchema P ''events'' world_city = (Inr ?city, world_city)"
    if "P = sim_ports \<or> P = ports_no_rediff" for P
    using that by (auto simp: fail_defs sim_defs)
  note fetched = refetch [THEN conjunct2, rule_format, OF _ _ _ fetch]
  have "Diff ports_no_rediff (?city\<lparr>Version := 2\<rparr>) (heap (sim_cached world_city 1) 0)
      = Inl ''column type changed''"
    by (simp add: fail_defs sim_defs)
  from fetched [THEN conjunct1, rule_format, OF _ _ _ _ this]
  have e: "fst (EnsureTable ports_no_rediff ''dst'' 0 (sim_cached world_city 1))
      = Inl ''column type changed''
   \<and> calls (sim_cached world_city 1)
        (snd (EnsureTable ports_no_rediff ''dst'' 0 (sim_cached world_city 1)))
      = [EvLock ''dst'' ''events'' (Inr (1, 2)), EvGetVersion ''dst'' ''events'' (Inr 2),
         EvGetTableSchema ''events'' (Inr ?city)]"
    by simp

  have "Diff sim_ports (?city\<lparr>Version := 2\<rparr>) (heap (sim_cached world_city 1) 0) = Inr no_diff"
    by (simp add: sim_defs)
  from fetched [THEN conjunct2, rule_format, OF _ _ _ _ this, THEN conjunct1, THEN mp,
      OF _ _ _ _ sim_no_diff_exists]
  have f: "fst (EnsureTable sim_ports ''dst'' 0 (sim_cached world_city 1)) = Inr 2
   \<and> heap (snd (EnsureTable sim_ports ''dst'' 0 (sim_cached world_city 1))) 2
       = \<lparr>Name = ''events'', Columns = [''id'' \<mapsto> INT64, ''city'' \<mapsto> STRING], Version = 2\<rparr>
   \<and> calls (sim_cached world_city 1) (snd (EnsureTable sim_ports ''dst'' 0 (sim_cached world_city 1)))
       = [EvLock ''dst'' ''events'' (Inr (1, 2)), EvGetVersion ''dst'' ''events'' (Inr 2),
          EvGetTableSchema ''events'' (Inr ?city)]"
    by simp

  have "GetTableSchema sim_ports ''events'' world_country = (Inr ?country, world_country)"
    and "Diff sim_ports (?country\<lparr>Version := 2\<rparr>) (heap (sim_cached world_country 1) 0)
      = Inr city_diff"
    by (simp_all add: sim_defs)
  from versioned [where w = world_country and P = sim_ports, unfolded v, THEN conjunct2, THEN mp,
      OF _ _ _ stale, THEN conjunct2, rule_format, OF _ _ _ this(1), THEN conjunct2,
      rule_format, OF _ _ _ this(2), THEN conjunct2, THEN mp, OF _ _ _ sim_city_diff_exists]
  have g: "calls (sim_cached world_country 1)
        (snd (EnsureTable sim_ports ''dst'' 0 (sim_cached world_country 1)))
       = [EvLock ''dst'' ''events'' (Inr (1, 2)), EvGetVersion ''dst'' ''events'' (Inr 2),
          EvGetTableSchema ''events'' (Inr ?country),
          EvPatchTableSchema city_diff None, EvIncrementVersion ''dst'' ''events'' (Inr 3)]"
    by (simp add: fail_defs sim_defs)

  have "0 < nextref (sim_state world_id)"
    and "tables (sim_state world_id) (Name (heap (sim_state world_id) 0)) = None
      \<and> (\<exists>e s1. getOrCreate ports_no_lock ''dst'' 0 (sim_state world_id) = (Inl e, s1))"
    by (simp_all add: sim_defs run_defs fail_defs)
  from EnsureTable_reconciles_before_patching [where dest = "''dst''", OF this(1),
      THEN conjunct1, THEN mp, OF this(2)]
  have h: "filter is_patch
        (added (sim_state world_id) (snd (EnsureTable ports_no_lock ''dst'' 0 (sim_state world_id))))
       = []" .

  define s1 where "s1 = snd (getOrCreate sim_ports ''dst'' 0 (sim_state world_id))"
  define s0 where "s0 = s1\<lparr>tables := (tables s1)(Name (heap s1 1) \<mapsto> 1)\<rparr>"
  have s1: "s1 = \<lparr>world = world_id,
      heap = (\<lambda>_. \<lparr>Name = [], Columns = Map.empty, Version = 0\<rparr>)
        (0 := desired, 1 := \<lparr>Name = ''events'', Columns = [''id'' \<mapsto> INT64], Version = 1\<rparr>),
      nextref = 2, tables = Map.empty, storageType = ''postgres'',
      trace = [EvLock ''dst'' ''events'' (Inr (1, 2)),
          EvGetTableSchema ''events''
            (Inr \<lparr>Name = ''events'', Columns = [''id'' \<mapsto> INT64], Version = 0\<rparr>),
          EvGetVersion ''dst'' ''events'' (Inr 1), EvUnlock 1 2 None], logged = []\<rparr>"
    by (simp add: s1_def sim_defs run_defs)
  have miss: "tables (sim_state world_id) (Name (heap (sim_state world_id) 0)) = None
      \<and> (\<exists>s1. getOrCreate sim_ports ''dst'' 0 (sim_state world_id) = (Inr 1, s1)
            \<and> s0 = s1\<lparr>tables := (tables s1)(Name (heap s1 1) \<mapsto> 1)\<rparr>)"
    unfolding s0_def s1_def by (simp add: sim_defs run_defs)
  have s0: "Name (heap s0 1) = ''events''" "Name (heap s0 0) = ''events''" "world s0 = world_id"
    "Diff sim_ports (heap s0 1) (heap s0 0) = Inr city_diff \<and> DiffExists sim_ports city_diff"
    "(1::int) = Version (heap s0 1)"
    "calls (sim_state world_id) s0 = [EvLock ''dst'' ''events'' (Inr (1, 2)),
          EvGetTableSchema ''events''
            (Inr \<lparr>Name = ''events'', Columns = [''id'' \<mapsto> INT64], Version = 0\<rparr>),
          EvGetVersion ''dst'' ''events'' (Inr 1)]"
    by (simp_all add: s0_def s1 sim_defs added_def calls_def)
  note from_miss = EnsureTable_reconciles_before_patching
    [where dest = "''dst''", OF \<open>0 < nextref (sim_state world_id)\<close>, THEN conjunct2, THEN mp,
      OF disjI2, OF miss, unfolded s0(1,2,3)]
  from from_miss [THEN conjunct2, THEN conjunct2, THEN conjunct2, rule_format, OF s0(4),
      THEN conjunct2, THEN conjunct2, rule_format, OF lock, THEN conjunct2, rule_format, OF _ gv,
      unfolded v, THEN conjunct1, THEN mp, OF _ _ s0(5)]
  have "calls s0 (snd (EnsureTable sim_ports ''dst'' 0 (sim_state world_id)))
       = [EvLock ''dst'' ''events'' (Inr (1, 2)), EvGetVersion ''dst'' ''events'' (Inr 1),
          EvPatchTableSchema city_diff None, EvIncrementVersion ''dst'' ''events'' (Inr 2)]"
    by (simp add: fail_defs sim_defs)
  with from_miss [THEN conjunct1] s0(6)
  have i: "calls (sim_state world_id) (snd (EnsureTable sim_ports ''dst'' 0 (sim_state world_id)))
       = [EvLock ''dst'' ''events'' (Inr (1, 2)),
          EvGetTableSchema ''events''
            (Inr \<lparr>Name = ''events'', Columns = [''id'' \<mapsto> INT64], Version = 0\<rparr>),
          EvGetVersion ''dst'' ''events'' (Inr 1),
          EvLock ''dst'' ''events'' (Inr (1, 2)), EvGetVersion ''dst'' ''events'' (Inr 1),
          EvPatchTableSchema city_diff None, EvIncrementVersion ''dst'' ''events'' (Inr 2)]"
    by (simp add: calls_def)
  show ?thesis
    by (simp only: a b c d e f g h i simp_thms)
qed

section \<open>Properties of unlock\<close>

lemma EnsureTable_apply_Unlock:
  "EnsureTable_apply (P\<lparr>Unlock := u\<rparr>) dest db d s = EnsureTable_apply P dest db d s"
  by (simp add: EnsureTable_apply_def
      cong: prod.case_cong sum.case_cong option.case_cong if_cong)

lemma EnsureTable_locked_Unlock:
  "EnsureTable_locked (P\<lparr>Unlock := u\<rparr>) dest ds db d s = EnsureTable_locked P dest ds db d s"
  by (simp add: EnsureTable_locked_def EnsureTable_apply_Unlock call_GetTableSchema_def
      cong: prod.case_cong sum.case_cong option.case_cong if_cong)

lemma getOrCreate_locked_Unlock:
  "getOrCreate_locked (P\<lparr>Unlock := u\<rparr>) dest ds s = getOrCreate_locked P dest ds s"
  by (simp add: getOrCreate_locked_def call_GetTableSchema_def
      cong: prod.case_cong sum.case_cong option.case_cong if_cong)

text \<open>
  Claim C5. \<^verbatim>\<open>unlock\<close>, started with \<^verbatim>\<open>retry = 1\<close> as both \<^verbatim>\<open>defer\<close> statements start it,
  calls \<^verbatim>\<open>Unlock\<close> at most \<^verbatim>\<open>unlockRetryCount\<close> = 5 times, the first attempt included: the
  attempts that failed, then either one that succeeded and no log line, or, after the
  fifth failure, no further attempt and one system-error line. The deferred \<^verbatim>\<open>unlock\<close>
  cannot change what the function returns: with any other behaviour \<open>u\<close> of \<^verbatim>\<open>Unlock\<close>,
  \<^verbatim>\<open>getOrCreate\<close> returns the same result and leaves the same store and cache; so does
  \<^verbatim>\<open>EnsureTable\<close> from its line 50 on, whose \<^verbatim>\<open>unlock\<close> is the deferred one of line 65,
  from every state and for every table object in hand; and so does the whole of
  \<^verbatim>\<open>EnsureTable\<close> on a table that is in the cache. (On a table that is not, the \<^verbatim>\<open>unlock\<close>
  of \<^verbatim>\<open>getOrCreate\<close> has run before line 50 is reached: what follows starts in the world
  that \<^verbatim>\<open>unlock\<close> left.)
\<close>

theorem unlock_bounded_and_harmless:
  fixes P :: "('w, 'c) ports"
  shows "(\<exists>errs. length errs \<le> 5
        \<and> trace (unlock P l c t 1 s0) = trace s0 @ map (\<lambda>e. EvUnlock l c (Some e)) errs
             @ (if length errs < 5 then [EvUnlock l c None] else [])
        \<and> logged (unlock P l c t 1 s0) = logged s0
             @ (if length errs < 5 then []
                else [UnlockFailed t (storageType s0) 5 (last errs)]))
    \<and> fst (getOrCreate (P\<lparr>Unlock := u\<rparr>) dest dataSchema s) = fst (getOrCreate P dest dataSchema s)
    \<and> heap (snd (getOrCreate (P\<lparr>Unlock := u\<rparr>) dest dataSchema s))
        = heap (snd (getOrCreate P dest dataSchema s))
    \<and> tables (snd (getOrCreate (P\<lparr>Unlock := u\<rparr>) dest dataSchema s))
        = tables (snd (getOrCreate P dest dataSchema s))
    \<and> fst (EnsureTable_diff (P\<lparr>Unlock := u\<rparr>) dest dataSchema db s)
        = fst (EnsureTable_diff P dest dataSchema db s)
    \<and> heap (snd (EnsureTable_diff (P\<lparr>Unlock := u\<rparr>) dest dataSchema db s))
        = heap (snd (EnsureTable_diff P dest dataSchema db s))
    \<and> tables (snd (EnsureTable_diff (P\<lparr>Unlock := u\<rparr>) dest dataSchema db s))
        = tables (snd (EnsureTable_diff P dest dataSchema db s))
    \<and> (tables s (Name (heap s dataSchema)) \<noteq> None \<longrightarrow>
         fst (EnsureTable (P\<lparr>Unlock := u\<rparr>) dest dataSchema s) = fst (EnsureTable P dest dataSchema s)
       \<and> heap (snd (EnsureTable (P\<lparr>Unlock := u\<rparr>) dest dataSchema s))
           = heap (snd (EnsureTable P dest dataSchema s))
       \<and> tables (snd (EnsureTable (P\<lparr>Unlock := u\<rparr>) dest dataSchema s))
           = tables (snd (EnsureTable P dest dataSchema s)))"
proof (intro conjI impI)
  from unlock_from_1 [of l c t s0 P]
  show "\<exists>errs. length errs \<le> 5
        \<and> trace (unlock P l c t 1 s0) = trace s0 @ map (\<lambda>e. EvUnlock l c (Some e)) errs
             @ (if length errs < 5 then [EvUnlock l c None] else [])
        \<and> logged (unlock P l c t 1 s0) = logged s0
             @ (if length errs < 5 then []
                else [UnlockFailed t (storageType s0) 5 (last errs)])"
    unfolding unlock_result_def unlockRetryCount_def by blast
next
  let ?P = "P\<lparr>Unlock := u\<rparr>"
  have g: "fst (getOrCreate ?P dest dataSchema s) = fst (getOrCreate P dest dataSchema s)
    \<and> heap (snd (getOrCreate ?P dest dataSchema s)) = heap (snd (getOrCreate P dest dataSchema s))
    \<and> tables (snd (getOrCreate ?P dest dataSchema s)) = tables (snd (getOrCreate P dest dataSchema s))"
    by (simp add: getOrCreate_def getOrCreate_locked_Unlock unlock_heap_tables
        split: prod.splits sum.splits)
  from g show "fst (getOrCreate ?P dest dataSchema s) = fst (getOrCreate P dest dataSchema s)"
    by blast
  from g show "heap (snd (getOrCreate ?P dest dataSchema s))
      = heap (snd (getOrCreate P dest dataSchema s))"
    by blast
  from g show "tables (snd (getOrCreate ?P dest dataSchema s))
      = tables (snd (getOrCreate P dest dataSchema s))"
    by blast
  have d: "fst (EnsureTable_diff ?P dest dataSchema db' s) = fst (EnsureTable_diff P dest dataSchema db' s)
    \<and> heap (snd (EnsureTable_diff ?P dest dataSchema db' s))
        = heap (snd (EnsureTable_diff P dest dataSchema db' s))
    \<and> tables (snd (EnsureTable_diff ?P dest dataSchema db' s))
        = tables (snd (EnsureTable_diff P dest dataSchema db' s))" for db'
    by (simp add: EnsureTable_diff_def EnsureTable_locked_Unlock unlock_heap_tables
        split: prod.splits sum.splits)
  from d show "fst (EnsureTable_diff ?P dest dataSchema db s)
      = fst (EnsureTable_diff P dest dataSchema db s)"
    by blast
  from d show "heap (snd (EnsureTable_diff ?P dest dataSchema db s))
      = heap (snd (EnsureTable_diff P dest dataSchema db s))"
    by blast
  from d show "tables (snd (EnsureTable_diff ?P dest dataSchema db s))
      = tables (snd (EnsureTable_diff P dest dataSchema db s))"
    by blast
  assume "tables s (Name (heap s dataSchema)) \<noteq> None"
  then obtain db' where hit: "tables s (Name (heap s dataSchema)) = Some db'"
    by blast
  have e: "fst (EnsureTable ?P dest dataSchema s) = fst (EnsureTable P dest dataSchema s)
       \<and> heap (snd (EnsureTable ?P dest dataSchema s)) = heap (snd (EnsureTable P dest dataSchema s))
       \<and> tables (snd (EnsureTable ?P dest dataSchema s)) = tables (snd (EnsureTable P dest dataSchema s))"
    using hit d [of db'] by (simp add: EnsureTable_def)
  from e show "fst (EnsureTable ?P dest dataSchema s) = fst (EnsureTable P dest dataSchema s)"
    by blast
  from e show "heap (snd (EnsureTable ?P dest dataSchema s))
      = heap (snd (EnsureTable P dest dataSchema s))"
    by blast
  from e show "tables (snd (EnsureTable ?P dest dataSchema s))
      = tables (snd (EnsureTable P dest dataSchema s))"
    by blast
qed

theorem unlock_bounded_and_harmless_witness:
  "tables (sim_cached (world_id\<lparr>unlock_failures := 9\<rparr>) 1)
       (Name (heap (sim_cached (world_id\<lparr>unlock_failures := 9\<rparr>) 1) 0)) \<noteq> None
   \<and> fst (EnsureTable sim_ports ''dst'' 0 (sim_cached (world_id\<lparr>unlock_failures := 9\<rparr>) 1)) = Inr 1
   \<and> filter is_Unlock
        (added (sim_cached (world_id\<lparr>unlock_failures := 9\<rparr>) 1)
           (snd (EnsureTable sim_ports ''dst'' 0 (sim_cached (world_id\<lparr>unlock_failures := 9\<rparr>) 1))))
       = [EvUnlock 1 2 (Some ''lock service unavailable''),
          EvUnlock 1 2 (Some ''lock service unavailable''),
          EvUnlock 1 2 (Some ''lock service unavailable''),
          EvUnlock 1 2 (Some ''lock service unavailable''),
          EvUnlock 1 2 (Some ''lock service unavailable'')]
   \<and> logged (snd (EnsureTable sim_ports ''dst'' 0 (sim_cached (world_id\<lparr>unlock_failures := 9\<rparr>) 1)))
       = [UnlockFailed ''events'' ''postgres'' 5 ''lock service unavailable'']"
proof -
  let ?s = "sim_cached (world_id\<lparr>unlock_failures := 9\<rparr>) 1"
  let ?u = "\<lambda>(l :: Lock) (c :: Closer) (w :: sim). (None :: error option, w)"
  have hit: "tables ?s (Name (heap ?s 0)) \<noteq> None"
    by (simp add: sim_defs)
  have released: "fst (EnsureTable (sim_ports\<lparr>Unlock := ?u\<rparr>) ''dst'' 0 ?s) = Inr 1"
    by (simp add: sim_defs run_defs)
  from unlock_bounded_and_harmless
    [where P = sim_ports and u = ?u and dest = "''dst''" and dataSchema = 0 and s = ?s] hit released
  have "fst (EnsureTable sim_ports ''dst'' 0 ?s) = Inr 1"
    by simp
  moreover have "filter is_Unlock (added ?s (snd (EnsureTable sim_ports ''dst'' 0 ?s)))
       = [EvUnlock 1 2 (Some ''lock service unavailable''),
          EvUnlock 1 2 (Some ''lock service unavailable''),
          EvUnlock 1 2 (Some ''lock service unavailable''),
          EvUnlock 1 2 (Some ''lock service unavailable''),
          EvUnlock 1 2 (Some ''lock service unavailable'')]"
    by (simp add: sim_defs run_defs)
  moreover have "logged (snd (EnsureTable sim_ports ''dst'' 0 ?s))
       = [UnlockFailed ''events'' ''postgres'' 5 ''lock service unavailable'']"
    by (simp add: sim_defs run_defs)
  ultimately show ?thesis using hit by blast
qed

section \<open>Properties of the Postgres storage\<close>

lemma rows_of_Nil [simp]: "rows_of [] = []"
  by (simp add: rows_of_def)

lemma rows_of_Cons [simp]:
  "rows_of (fdata # rest) = map (Pair (DataSchema fdata)) (payload fdata) @ rows_of rest"
  by (simp add: rows_of_def)

lemma rowsCount_rows: "rowsCount flatData = int (length (rows_of flatData))"
proof -
  have "fold (\<lambda>fdata n. n + GetPayloadLen fdata) flatData a = a + int (length (rows_of flatData))"
    for a
    by (induction flatData arbitrary: a) (simp_all add: GetPayloadLen_def)
  then show ?thesis by (simp add: rowsCount_def)
qed

lemma Store_rows_break:
  assumes "breakOnError p"
  shows "(fst (Store_rows P p tx ds objs s) = None
        \<and> trace (snd (Store_rows P p tx ds objs s))
            = trace s @ map (\<lambda>row. attempt tx row None) (map (Pair ds) objs))
      \<or> (\<exists>k err. k < length objs \<and> fst (Store_rows P p tx ds objs s) = Some err
        \<and> trace (snd (Store_rows P p tx ds objs s))
            = trace s @ map (\<lambda>row. attempt tx row None) (take k (map (Pair ds) objs))
                @ [attempt tx (ds, objs ! k) (Some err), EvRollback tx])"
proof (induction objs arbitrary: s)
  case Nil
  then show ?case by simp
next
  case (Cons obj rest)
  define s1 where "s1 = snd (call (InsertInTransaction P tx (heap s ds) obj)
             (EvInsertInTransaction tx ds obj) s)"
  show ?case
  proof (cases "fst (InsertInTransaction P tx (heap s ds) obj (world s))")
    case None
    then have step: "Store_rows P p tx ds (obj # rest) s = Store_rows P p tx ds rest s1"
      by (simp add: s1_def call_eq)
    have t1: "trace s1 = trace s @ [attempt tx (ds, obj) None]"
      using None by (simp add: s1_def call_eq attempt_def)
    from Cons.IH [of s1] show ?thesis
    proof
      assume "fst (Store_rows P p tx ds rest s1) = None
        \<and> trace (snd (Store_rows P p tx ds rest s1))
            = trace s1 @ map (\<lambda>row. attempt tx row None) (map (Pair ds) rest)"
      then show ?thesis unfolding step t1 by simp
    next
      assume "\<exists>k err. k < length rest \<and> fst (Store_rows P p tx ds rest s1) = Some err
        \<and> trace (snd (Store_rows P p tx ds rest s1))
            = trace s1 @ map (\<lambda>row. attempt tx row None) (take k (map (Pair ds) rest))
                @ [attempt tx (ds, rest ! k) (Some err), EvRollback tx]"
      then obtain k err where k: "k < length rest" "fst (Store_rows P p tx ds rest s1) = Some err"
        "trace (snd (Store_rows P p tx ds rest s1))
            = trace s1 @ map (\<lambda>row. attempt tx row None) (take k (map (Pair ds) rest))
                @ [attempt tx (ds, rest ! k) (Some err), EvRollback tx]"
        by blast
      have "Suc k < length (obj # rest) \<and> fst (Store_rows P p tx ds (obj # rest) s) = Some err
        \<and> trace (snd (Store_rows P p tx ds (obj # rest) s))
            = trace s @ map (\<lambda>row. attempt tx row None) (take (Suc k) (map (Pair ds) (obj # rest)))
                @ [attempt tx (ds, (obj # rest) ! Suc k) (Some err), EvRollback tx]"
        using k unfolding step t1 by simp
      then show ?thesis by blast
    qed
  next
    case (Some err)
    have "0 < length (obj # rest) \<and> fst (Store_rows P p tx ds (obj # rest) s) = Some err
        \<and> trace (snd (Store_rows P p tx ds (obj # rest) s))
            = trace s @ map (\<lambda>row. attempt tx row None) (take 0 (map (Pair ds) (obj # rest)))
                @ [attempt tx (ds, (obj # rest) ! 0) (Some err), EvRollback tx]"
      using Some assms by (simp add: call_eq attempt_def)
    then show ?thesis by blast
  qed
qed

lemma Store_rows_skip:
  assumes "\<not> breakOnError p"
  shows "\<exists>results. length results = length objs
      \<and> fst (Store_rows P p tx ds objs s) = None
      \<and> trace (snd (Store_rows P p tx ds objs s))
          = trace s @ map2 (attempt tx) (map (Pair ds) objs) results
      \<and> logged (snd (Store_rows P p tx ds objs s))
          = logged s @ concat (map2 (skipped (name p)) (map (Pair ds) objs) results)"
proof (induction objs arbitrary: s)
  case Nil
  then show ?case by simp
next
  case (Cons obj rest)
  define res where "res = fst (InsertInTransaction P tx (heap s ds) obj (world s))"
  define s1 where "s1 = snd (call (InsertInTransaction P tx (heap s ds) obj)
             (EvInsertInTransaction tx ds obj) s)"
  define s1' where "s1' = s1\<lparr>logged := logged s1 @ skipped (name p) (ds, obj) res\<rparr>"
  have step: "Store_rows P p tx ds (obj # rest) s = Store_rows P p tx ds rest s1'"
    using assms by (cases res) (simp_all add: s1'_def s1_def res_def call_eq skipped_def)
  have t1: "trace s1' = trace s @ [attempt tx (ds, obj) res]"
    "logged s1' = logged s @ skipped (name p) (ds, obj) res"
    by (simp_all add: s1'_def s1_def res_def call_eq attempt_def)
  from Cons.IH [of s1'] obtain results where r: "length results = length rest"
    "fst (Store_rows P p tx ds rest s1') = None"
    "trace (snd (Store_rows P p tx ds rest s1'))
          = trace s1' @ map2 (attempt tx) (map (Pair ds) rest) results"
    "logged (snd (Store_rows P p tx ds rest s1'))
          = logged s1' @ concat (map2 (skipped (name p)) (map (Pair ds) rest) results)"
    by blast
  show ?case
    using r unfolding step t1 by (intro exI [of _ "res # results"]) simp
qed

lemma Store_groups_Cons:
  "Store_groups P p tx (fdata # rest) s =
     (case fst (Store_rows P p tx (DataSchema fdata) (payload fdata) s) of
        Some err \<Rightarrow> (Some err, snd (Store_rows P p tx (DataSchema fdata) (payload fdata) s))
      | None \<Rightarrow> Store_groups P p tx rest
          (snd (Store_rows P p tx (DataSchema fdata) (payload fdata) s)))"
  by (simp add: case_prod_beta)

lemma Store_groups_break:
  assumes "breakOnError p"
  shows "(fst (Store_groups P p tx flatData s) = None
        \<and> trace (snd (Store_groups P p tx flatData s))
            = trace s @ map (\<lambda>row. attempt tx row None) (rows_of flatData))
      \<or> (\<exists>k err. k < length (rows_of flatData) \<and> fst (Store_groups P p tx flatData s) = Some err
        \<and> trace (snd (Store_groups P p tx flatData s))
            = trace s @ map (\<lambda>row. attempt tx row None) (take k (rows_of flatData))
                @ [attempt tx (rows_of flatData ! k) (Some err), EvRollback tx])"
proof (induction flatData arbitrary: s)
  case Nil
  then show ?case by simp
next
  case (Cons fdata rest)
  let ?ds = "DataSchema fdata" and ?objs = "payload fdata"
  let ?here = "map (Pair ?ds) ?objs"
  define s1 where "s1 = snd (Store_rows P p tx ?ds ?objs s)"
  from Store_rows_break [OF assms, of P tx ?ds ?objs s] show ?case
  proof
    assume a: "fst (Store_rows P p tx ?ds ?objs s) = None
        \<and> trace (snd (Store_rows P p tx ?ds ?objs s))
            = trace s @ map (\<lambda>row. attempt tx row None) ?here"
    then have step: "Store_groups P p tx (fdata # rest) s = Store_groups P p tx rest s1"
      by (simp add: s1_def Store_groups_Cons del: Store_groups.simps)
    have t1: "trace s1 = trace s @ map (\<lambda>row. attempt tx row None) ?here"
      using a by (simp add: s1_def)
    from Cons.IH [of s1] show ?thesis
    proof
      assume "fst (Store_groups P p tx rest s1) = None
        \<and> trace (snd (Store_groups P p tx rest s1))
            = trace s1 @ map (\<lambda>row. attempt tx row None) (rows_of rest)"
      then show ?thesis unfolding step t1 by simp
    next
      assume "\<exists>k err. k < length (rows_of rest) \<and> fst (Store_groups P p tx rest s1) = Some err
        \<and> trace (snd (Store_groups P p tx rest s1))
            = trace s1 @ map (\<lambda>row. attempt tx row None) (take k (rows_of rest))
                @ [attempt tx (rows_of rest ! k) (Some err), EvRollback tx]"
      then obtain k err where k: "k < length (rows_of rest)"
        "fst (Store_groups P p tx rest s1) = Some err"
        "trace (snd (Store_groups P p tx rest s1))
            = trace s1 @ map (\<lambda>row. attempt tx row None) (take k (rows_of rest))
                @ [attempt tx (rows_of rest ! k) (Some err), EvRollback tx]"
        by blast
      have "length ?objs + k < length (rows_of (fdata # rest))
        \<and> fst (Store_groups P p tx (fdata # rest) s) = Some err
        \<and> trace (snd (Store_groups P p tx (fdata # rest) s))
            = trace s @ map (\<lambda>row. attempt tx row None) (take (length ?objs + k) (rows_of (fdata # rest)))
                @ [attempt tx (rows_of (fdata # rest) ! (length ?objs + k)) (Some err), EvRollback tx]"
        using k unfolding step t1 by (simp add: nth_append)
      then show ?thesis by blast
    qed
  next
    assume "\<exists>k err. k < length ?objs \<and> fst (Store_rows P p tx ?ds ?objs s) = Some err
        \<and> trace (snd (Store_rows P p tx ?ds ?objs s))
            = trace s @ map (\<lambda>row. attempt tx row None) (take k ?here)
                @ [attempt tx (?ds, ?objs ! k) (Some err), EvRollback tx]"
    then obtain k err where k: "k < length ?objs"
      "fst (Store_rows P p tx ?ds ?objs s) = Some err"
      "trace (snd (Store_rows P p tx ?ds ?objs s))
            = trace s @ map (\<lambda>row. attempt tx row None) (take k ?here)
                @ [attempt tx (?ds, ?objs ! k) (Some err), EvRollback tx]"
      by blast
    have "k < length (rows_of (fdata # rest))
        \<and> fst (Store_groups P p tx (fdata # rest) s) = Some err
        \<and> trace (snd (Store_groups P p tx (fdata # rest) s))
            = trace s @ map (\<lambda>row. attempt tx row None) (take k (rows_of (fdata # rest)))
                @ [attempt tx (rows_of (fdata # rest) ! k) (Some err), EvRollback tx]"
      using k by (simp add: nth_append Store_groups_Cons del: Store_groups.simps)
    then show ?thesis by blast
  qed
qed

lemma Store_groups_skip:
  assumes "\<not> breakOnError p"
  shows "\<exists>results. length results = length (rows_of flatData)
      \<and> fst (Store_groups P p tx flatData s) = None
      \<and> trace (snd (Store_groups P p tx flatData s))
          = trace s @ map2 (attempt tx) (rows_of flatData) results
      \<and> logged (snd (Store_groups P p tx flatData s))
          = logged s @ concat (map2 (skipped (name p)) (rows_of flatData) results)"
proof (induction flatData arbitrary: s)
  case Nil
  then show ?case by simp
next
  case (Cons fdata rest)
  let ?ds = "DataSchema fdata" and ?objs = "payload fdata"
  let ?here = "map (Pair ?ds) ?objs"
  define s1 where "s1 = snd (Store_rows P p tx ?ds ?objs s)"
  from Store_rows_skip [OF assms, of ?objs P tx ?ds s] obtain r1 where r1:
    "length r1 = length ?objs" "fst (Store_rows P p tx ?ds ?objs s) = None"
    "trace s1 = trace s @ map2 (attempt tx) ?here r1"
    "logged s1 = logged s @ concat (map2 (skipped (name p)) ?here r1)"
    unfolding s1_def by blast
  have step: "Store_groups P p tx (fdata # rest) s = Store_groups P p tx rest s1"
    using r1(2) by (simp add: s1_def Store_groups_Cons del: Store_groups.simps)
  from Cons.IH [of s1] obtain r2 where r2: "length r2 = length (rows_of rest)"
    "fst (Store_groups P p tx rest s1) = None"
    "trace (snd (Store_groups P p tx rest s1))
          = trace s1 @ map2 (attempt tx) (rows_of rest) r2"
    "logged (snd (Store_groups P p tx rest s1))
          = logged s1 @ concat (map2 (skipped (name p)) (rows_of rest) r2)"
    by blast
  show ?case
    using r1 r2 unfolding step by (intro exI [of _ "r1 @ r2"]) simp
qed

text \<open>
  Claim C4. The payload was flattened, the tables were ensured and the transaction was
  opened. \<^verbatim>\<open>Store\<close> returns the row count of the flattened payload, whatever happens to the
  rows. With \<^verbatim>\<open>breakOnError\<close>: either some row is the first to fail, the rows before it
  were inserted, the failure is followed at once by \<^verbatim>\<open>Rollback\<close> and nothing else, and the
  error returned is that row's; or every row was inserted and the commit's result is
  returned. Without \<^verbatim>\<open>breakOnError\<close>: every row is attempted in order, each failure is
  logged, then the transaction is committed and the commit's result is returned.
\<close>

theorem Store_row_failures:
  fixes P :: "('w, 'c) ports"
  assumes flat: "call (ProcessFilePayload P fileName bytes (breakOnError p))
        (\<lambda>_. EvProcessFilePayload fileName bytes (breakOnError p)) s = (Inr groups, s1)"
    and groups: "alloc_groups groups s1 = (flatData, s2)"
    and ensured: "Store_tables P p flatData s2 = (None, s3)"
    and tx: "OpenTx P (world s3) = (Inr tx, w4)"
  shows "rowsCount flatData = int (length (rows_of flatData))
    \<and> fst (fst (Store P p fileName bytes s)) = rowsCount flatData
    \<and> (breakOnError p \<longrightarrow>
         (\<exists>k err. k < length (rows_of flatData)
            \<and> snd (fst (Store P p fileName bytes s)) = Some err
            \<and> added s3 (snd (Store P p fileName bytes s))
                = EvOpenTx (Inr tx) # map (\<lambda>row. attempt tx row None) (take k (rows_of flatData))
                    @ [attempt tx (rows_of flatData ! k) (Some err), EvRollback tx])
         \<or> added s3 (snd (Store P p fileName bytes s))
              = EvOpenTx (Inr tx) # map (\<lambda>row. attempt tx row None) (rows_of flatData)
                  @ [EvDirectCommit tx (snd (fst (Store P p fileName bytes s)))])
    \<and> (\<not> breakOnError p \<longrightarrow>
         (\<exists>results. length results = length (rows_of flatData)
            \<and> added s3 (snd (Store P p fileName bytes s))
                = EvOpenTx (Inr tx) # map2 (attempt tx) (rows_of flatData) results
                    @ [EvDirectCommit tx (snd (fst (Store P p fileName bytes s)))]
            \<and> logged (snd (Store P p fileName bytes s))
                = logged s3 @ concat (map2 (skipped (name p)) (rows_of flatData) results)))"
proof -
  define s4 where "s4 = snd (call (OpenTx P) EvOpenTx s3)"
  define s5 where "s5 = snd (Store_groups P p tx flatData s4)"
  define s6 where "s6 = snd (call (DirectCommit P tx) (EvDirectCommit tx) s5)"
  define res where "res = fst (DirectCommit P tx (world s5))"
  have f4: "trace s4 = trace s3 @ [EvOpenTx (Inr tx)]" "logged s4 = logged s3"
    using tx by (simp_all add: s4_def call_eq)
  have c4: "call (OpenTx P) EvOpenTx s3 = (Inr tx, s4)"
    using tx by (simp add: s4_def call_eq)
  have f6: "trace s6 = trace s5 @ [EvDirectCommit tx res]" "logged s6 = logged s5"
    by (simp_all add: s6_def res_def call_eq)
  have c6: "call (DirectCommit P tx) (EvDirectCommit tx) s5 = (res, s6)"
    by (simp add: s6_def res_def call_eq)
  have st: "Store P p fileName bytes s =
      (case fst (Store_groups P p tx flatData s4) of
         Some err \<Rightarrow> ((rowsCount flatData, Some err), s5)
       | None \<Rightarrow> ((rowsCount flatData, res), s6))"
    using flat groups ensured c4 c6 [unfolded s5_def]
    by (simp add: Store_def Store_tx_def s5_def case_prod_beta cong: option.case_cong)
  have count: "fst (fst (Store P p fileName bytes s)) = rowsCount flatData"
    by (simp add: st split: option.splits)
  have brk: "(\<exists>k err. k < length (rows_of flatData)
            \<and> snd (fst (Store P p fileName bytes s)) = Some err
            \<and> added s3 (snd (Store P p fileName bytes s))
                = EvOpenTx (Inr tx) # map (\<lambda>row. attempt tx row None) (take k (rows_of flatData))
                    @ [attempt tx (rows_of flatData ! k) (Some err), EvRollback tx])
         \<or> added s3 (snd (Store P p fileName bytes s))
              = EvOpenTx (Inr tx) # map (\<lambda>row. attempt tx row None) (rows_of flatData)
                  @ [EvDirectCommit tx (snd (fst (Store P p fileName bytes s)))]" if b: "breakOnError p"
    using Store_groups_break [OF b, of P tx flatData s4]
  proof
    assume "fst (Store_groups P p tx flatData s4) = None
        \<and> trace (snd (Store_groups P p tx flatData s4))
            = trace s4 @ map (\<lambda>row. attempt tx row None) (rows_of flatData)"
    then have "added s3 (snd (Store P p fileName bytes s))
                = EvOpenTx (Inr tx) # map (\<lambda>row. attempt tx row None) (rows_of flatData)
                    @ [EvDirectCommit tx (snd (fst (Store P p fileName bytes s)))]"
      using f4 f6 by (simp add: st added_def s5_def)
    then show ?thesis by blast
  next
    assume "\<exists>k err. k < length (rows_of flatData) \<and> fst (Store_groups P p tx flatData s4) = Some err
        \<and> trace (snd (Store_groups P p tx flatData s4))
            = trace s4 @ map (\<lambda>row. attempt tx row None) (take k (rows_of flatData))
                @ [attempt tx (rows_of flatData ! k) (Some err), EvRollback tx]"
    then obtain k err where k: "k < length (rows_of flatData)"
      "fst (Store_groups P p tx flatData s4) = Some err"
      "trace s5 = trace s4 @ map (\<lambda>row. attempt tx row None) (take k (rows_of flatData))
                @ [attempt tx (rows_of flatData ! k) (Some err), EvRollback tx]"
      unfolding s5_def by blast
    have "snd (fst (Store P p fileName bytes s)) = Some err
            \<and> added s3 (snd (Store P p fileName bytes s))
                = EvOpenTx (Inr tx) # map (\<lambda>row. attempt tx row None) (take k (rows_of flatData))
                    @ [attempt tx (rows_of flatData ! k) (Some err), EvRollback tx]"
      using k f4 by (simp add: st added_def)
    with k(1) show ?thesis by blast
  qed
  have skip: "\<exists>results. length results = length (rows_of flatData)
            \<and> added s3 (snd (Store P p fileName bytes s))
                = EvOpenTx (Inr tx) # map2 (attempt tx) (rows_of flatData) results
                    @ [EvDirectCommit tx (snd (fst (Store P p fileName bytes s)))]
            \<and> logged (snd (Store P p fileName bytes s))
                = logged s3 @ concat (map2 (skipped (name p)) (rows_of flatData) results)"
    if b: "\<not> breakOnError p"
  proof -
    from Store_groups_skip [OF b, of flatData P tx s4] obtain results where r:
      "length results = length (rows_of flatData)"
      "fst (Store_groups P p tx flatData s4) = None"
      "trace s5 = trace s4 @ map2 (attempt tx) (rows_of flatData) results"
      "logged s5 = logged s4 @ concat (map2 (skipped (name p)) (rows_of flatData) results)"
      unfolding s5_def by blast
    have "added s3 (snd (Store P p fileName bytes s))
                = EvOpenTx (Inr tx) # map2 (attempt tx) (rows_of flatData) results
                    @ [EvDirectCommit tx (snd (fst (Store P p fileName bytes s)))]
            \<and> logged (snd (Store P p fileName bytes s))
                = logged s3 @ concat (map2 (skipped (name p)) (rows_of flatData) results)"
      using r f4 f6 by (simp add: st added_def)
    with r(1) show ?thesis by blast
  qed
  from rowsCount_rows count brk skip show ?thesis by blast
qed

theorem Store_row_failures_witness:
  "Store sim_ports (sim_pg True) ''batch'' [] (sim_state world_five)
     = ((5, Some ''row rejected''), snd (Store sim_ports (sim_pg True) ''batch'' [] (sim_state world_five)))
   \<and> filter (\<lambda>e. e = EvRollback 7 \<or> e = EvDirectCommit 7 None)
        (trace (snd (Store sim_ports (sim_pg True) ''batch'' [] (sim_state world_five))))
      = [EvRollback 7]
   \<and> Store sim_ports (sim_pg False) ''batch'' [] (sim_state world_five)
     = ((5, None), snd (Store sim_ports (sim_pg False) ''batch'' [] (sim_state world_five)))
   \<and> filter (\<lambda>e. e = EvRollback 7 \<or> e = EvDirectCommit 7 None)
        (trace (snd (Store sim_ports (sim_pg False) ''batch'' [] (sim_state world_five))))
      = [EvDirectCommit 7 None]
   \<and> logged (snd (Store sim_ports (sim_pg False) ''batch'' [] (sim_state world_five)))
      = [InsertSkipped ''pg'' 12 ''row rejected'']"
proof -
  have count: "fst (fst (Store sim_ports (sim_pg b) ''batch'' [] (sim_state world_five))) = 5" for b
  proof -
    let ?s1 = "snd (call (ProcessFilePayload sim_ports ''batch'' [] b)
        (\<lambda>_. EvProcessFilePayload ''batch'' [] b) (sim_state world_five))"
    let ?s2 = "snd (alloc_groups [(desired, [11, 12, 13, 14, 15])] ?s1)"
    let ?s3 = "snd (Store_tables sim_ports (sim_pg b) five ?s2)"
    have b: "breakOnError (sim_pg b) = b"
      by (simp add: sim_pg_def)
    have flat: "call (ProcessFilePayload sim_ports ''batch'' [] (breakOnError (sim_pg b)))
        (\<lambda>_. EvProcessFilePayload ''batch'' [] (breakOnError (sim_pg b))) (sim_state world_five)
      = (Inr [(desired, [11, 12, 13, 14, 15])], ?s1)"
      unfolding b by (rule sim_five_flat)
    have ensured: "Store_tables sim_ports (sim_pg b) five ?s2 = (None, ?s3)"
      using sim_five_tables [of b] by (simp add: prod_eq_iff)
    have tx: "OpenTx sim_ports (world ?s3) = (Inr 7, world ?s3)"
      by (simp add: sim_ports_def)
    from Store_row_failures [OF flat sim_five_groups ensured tx]
    have "fst (fst (Store sim_ports (sim_pg b) ''batch'' [] (sim_state world_five)))
        = int (length (rows_of five))"
      by simp
    then show ?thesis by (simp add: five_def rows_of_def)
  qed
  from count [of True] count [of False] sim_five_break sim_five_skip show ?thesis
    by (simp add: prod_eq_iff)
qed

lemma Store_tables_extends: "Store_tables P p flatData s = (r, s1) \<Longrightarrow> extends s s1"
proof (induction flatData arbitrary: s)
  case Nil
  then show ?case by simp
next
  case (Cons fdata rest)
  then show ?case
    by (auto split: prod.splits sum.splits option.splits
        dest!: EnsureTable_extends call_extends' intro: extends_trans)
qed

subsection \<open>The calls of the transaction, row by row\<close>

lemma Store_tables_append:
  "Store_tables P p pre s = (None, sk)
    \<Longrightarrow> Store_tables P p (pre @ rest) s = Store_tables P p rest sk"
proof (induction pre arbitrary: s)
  case Nil
  then show ?case by simp
next
  case (Cons fdata pre)
  then show ?case
    by (auto split: prod.splits sum.splits option.splits)
qed

lemma attempt_not_Rollback [simp]:
  "attempt tx row res \<noteq> EvRollback tx'" "EvRollback tx' \<noteq> attempt tx row res"
  by (simp_all add: attempt_def)

text \<open>The rows of one row-group: the calls are those of \<open>row_inserts\<close>, which go on with the
  rows that follow unless a rollback ended them.\<close>

lemma Store_rows_replay:
  "\<exists>evs. trace (snd (Store_rows P p tx ds objs s)) = trace s @ evs
     \<and> heap (snd (Store_rows P p tx ds objs s)) = heap s
     \<and> (case fst (Store_rows P p tx ds objs s) of
          None \<Rightarrow> EvRollback tx \<notin> set evs
            \<and> (\<forall>rest. row_inserts P (breakOnError p) tx (heap s) (map (Pair ds) objs @ rest) (world s)
                 = evs @ row_inserts P (breakOnError p) tx (heap s) rest
                          (world (snd (Store_rows P p tx ds objs s))))
        | Some err \<Rightarrow> EvRollback tx \<in> set evs
            \<and> (\<forall>rest. row_inserts P (breakOnError p) tx (heap s) (map (Pair ds) objs @ rest) (world s)
                 = evs))"
proof (induction objs arbitrary: s)
  case Nil
  then show ?case by simp
next
  case (Cons obj objs)
  define res where "res = fst (InsertInTransaction P tx (heap s ds) obj (world s))"
  define w1 where "w1 = snd (InsertInTransaction P tx (heap s ds) obj (world s))"
  define s1 where "s1 = snd (call (InsertInTransaction P tx (heap s ds) obj)
      (EvInsertInTransaction tx ds obj) s)"
  have c: "call (InsertInTransaction P tx (heap s ds) obj) (EvInsertInTransaction tx ds obj) s
      = (res, s1)"
    by (simp add: s1_def res_def call_eq)
  have f1: "trace s1 = trace s @ [attempt tx (ds, obj) res]" "heap s1 = heap s" "world s1 = w1"
    by (simp_all add: s1_def res_def w1_def call_eq attempt_def)
  have ri: "row_inserts P brk tx (heap s) ((ds, obj) # map (Pair ds) objs @ rest) (world s)
      = attempt tx (ds, obj) res
          # (if res \<noteq> None \<and> brk then [EvRollback tx]
             else row_inserts P brk tx (heap s) (map (Pair ds) objs @ rest) w1)" for rest brk
    by (simp add: res_def w1_def case_prod_beta)
  show ?case
  proof (cases "res \<noteq> None \<and> breakOnError p")
    case True
    then obtain err where err: "res = Some err" by auto
    have rs: "fst (InsertInTransaction P tx (heap s ds) obj (world s)) = Some err"
      using err by (simp add: res_def)
    have step: "Store_rows P p tx ds (obj # objs) s
        = (Some err, snd (call (\<lambda>w. ((), Rollback P tx w)) (\<lambda>_. EvRollback tx) s1))"
      using True by (simp add: call_eq rs s1_def)
    show ?thesis
      unfolding step using True err by (simp add: call_eq f1 ri del: row_inserts.simps)
  next
    case False
    define s1' where "s1' = (case res of None \<Rightarrow> s1
        | Some err \<Rightarrow> s1\<lparr>logged := logged s1 @ [InsertSkipped (name p) obj err]\<rparr>)"
    have step: "Store_rows P p tx ds (obj # objs) s = Store_rows P p tx ds objs s1'"
      using False by (cases res) (simp_all add: s1'_def s1_def res_def call_eq)
    have f1': "trace s1' = trace s @ [attempt tx (ds, obj) res]" "heap s1' = heap s"
      "world s1' = w1"
      using f1 by (simp_all add: s1'_def split: option.splits)
    from Cons.IH [of s1'] obtain evs where
      evs: "trace (snd (Store_rows P p tx ds objs s1')) = trace s1' @ evs"
        "heap (snd (Store_rows P p tx ds objs s1')) = heap s1'"
        "(case fst (Store_rows P p tx ds objs s1') of
          None \<Rightarrow> EvRollback tx \<notin> set evs
            \<and> (\<forall>rest. row_inserts P (breakOnError p) tx (heap s1') (map (Pair ds) objs @ rest) (world s1')
                 = evs @ row_inserts P (breakOnError p) tx (heap s1') rest
                          (world (snd (Store_rows P p tx ds objs s1'))))
        | Some err \<Rightarrow> EvRollback tx \<in> set evs
            \<and> (\<forall>rest. row_inserts P (breakOnError p) tx (heap s1') (map (Pair ds) objs @ rest) (world s1')
                 = evs))"
      by blast
    show ?thesis
      unfolding step
      using evs False
      by (intro exI [of _ "attempt tx (ds, obj) res # evs"])
        (auto simp: f1' ri [where brk = "breakOnError p"] simp del: row_inserts.simps
          split: option.splits)
  qed
qed

lemma Store_groups_replay:
  "\<exists>evs. trace (snd (Store_groups P p tx flatData s)) = trace s @ evs
     \<and> heap (snd (Store_groups P p tx flatData s)) = heap s
     \<and> (case fst (Store_groups P p tx flatData s) of
          None \<Rightarrow> EvRollback tx \<notin> set evs
            \<and> (\<forall>rest. row_inserts P (breakOnError p) tx (heap s) (rows_of flatData @ rest) (world s)
                 = evs @ row_inserts P (breakOnError p) tx (heap s) rest
                          (world (snd (Store_groups P p tx flatData s))))
        | Some err \<Rightarrow> EvRollback tx \<in> set evs
            \<and> (\<forall>rest. row_inserts P (breakOnError p) tx (heap s) (rows_of flatData @ rest) (world s)
                 = evs))"
proof (induction flatData arbitrary: s)
  case Nil
  then show ?case by simp
next
  case (Cons fdata flatData)
  let ?ds = "DataSchema fdata" and ?objs = "payload fdata"
  define s1 where "s1 = snd (Store_rows P p tx ?ds ?objs s)"
  from Store_rows_replay [of P p tx ?ds ?objs s] obtain evs1 where
    e1: "trace s1 = trace s @ evs1" "heap s1 = heap s"
      "(case fst (Store_rows P p tx ?ds ?objs s) of
          None \<Rightarrow> EvRollback tx \<notin> set evs1
            \<and> (\<forall>rest. row_inserts P (breakOnError p) tx (heap s) (map (Pair ?ds) ?objs @ rest) (world s)
                 = evs1 @ row_inserts P (breakOnError p) tx (heap s) rest (world s1))
        | Some err \<Rightarrow> EvRollback tx \<in> set evs1
            \<and> (\<forall>rest. row_inserts P (breakOnError p) tx (heap s) (map (Pair ?ds) ?objs @ rest) (world s)
                 = evs1))"
    unfolding s1_def by blast
  show ?case
  proof (cases "fst (Store_rows P p tx ?ds ?objs s)")
    case (Some err)
    then have "Store_groups P p tx (fdata # flatData) s = (Some err, s1)"
      by (simp add: Store_groups_Cons s1_def del: Store_groups.simps)
    then show ?thesis
      using e1 Some by (intro exI [of _ evs1]) simp
  next
    case None
    then have step: "Store_groups P p tx (fdata # flatData) s = Store_groups P p tx flatData s1"
      by (simp add: Store_groups_Cons s1_def del: Store_groups.simps)
    from Cons.IH [of s1] obtain evs2 where
      e2: "trace (snd (Store_groups P p tx flatData s1)) = trace s1 @ evs2"
        "heap (snd (Store_groups P p tx flatData s1)) = heap s1"
        "(case fst (Store_groups P p tx flatData s1) of
          None \<Rightarrow> EvRollback tx \<notin> set evs2
            \<and> (\<forall>rest. row_inserts P (breakOnError p) tx (heap s1) (rows_of flatData @ rest) (world s1)
                 = evs2 @ row_inserts P (breakOnError p) tx (heap s1) rest
                          (world (snd (Store_groups P p tx flatData s1))))
        | Some err \<Rightarrow> EvRollback tx \<in> set evs2
            \<and> (\<forall>rest. row_inserts P (breakOnError p) tx (heap s1) (rows_of flatData @ rest) (world s1)
                 = evs2))"
      by blast
    show ?thesis
      unfolding step
      using e1 e2 None
      by (intro exI [of _ "evs1 @ evs2"]) (auto split: option.splits)
  qed
qed

lemma Store_groups_extends: "extends s (snd (Store_groups P p tx flatData s))"
  using Store_groups_replay [of P p tx flatData s] by (auto simp: extends_def)

lemma Store_tx_extends: "extends s (snd (Store_tx P p flatData s))"
proof -
  have "extends (snd (call (OpenTx P) EvOpenTx s)) (snd (Store_tx P p flatData s))"
    by (auto simp: Store_tx_def case_prod_beta split: sum.splits option.splits
        intro: extends_trans Store_groups_extends call_extends)
  with call_extends [of s "OpenTx P" EvOpenTx] show ?thesis
    by (rule extends_trans)
qed

text \<open>The transaction of \<^verbatim>\<open>Store\<close>: after \<^verbatim>\<open>OpenTx\<close> the calls of \<open>row_inserts\<close> on the rows
  of the payload, then the commit unless a rollback ended them.\<close>

lemma Store_tx_replay:
  fixes P :: "('w, 'c) ports" and p :: Postgres and flatData :: "ProcessedFile list"
    and s :: "('w, 'c) state" and tx :: Tx and w4 :: 'w
  assumes tx: "OpenTx P (world s) = (Inr tx, w4)"
  defines "ri \<equiv> row_inserts P (breakOnError p) tx (heap s) (rows_of flatData) w4"
  shows "added s (snd (Store_tx P p flatData s))
    = EvOpenTx (Inr tx) # ri
        @ (if EvRollback tx \<in> set ri then []
           else [EvDirectCommit tx (snd (fst (Store_tx P p flatData s)))])"
proof -
  define s4 where "s4 = snd (call (OpenTx P) EvOpenTx s)"
  define s5 where "s5 = snd (Store_groups P p tx flatData s4)"
  have f4: "trace s4 = trace s @ [EvOpenTx (Inr tx)]" "heap s4 = heap s" "world s4 = w4"
    using tx by (simp_all add: s4_def call_eq)
  have c4: "call (OpenTx P) EvOpenTx s = (Inr tx, s4)"
    using tx by (simp add: s4_def call_eq)
  from Store_groups_replay [of P p tx flatData s4] obtain evs where
    evs: "trace s5 = trace s4 @ evs"
      "(case fst (Store_groups P p tx flatData s4) of
          None \<Rightarrow> EvRollback tx \<notin> set evs
            \<and> (\<forall>rest. row_inserts P (breakOnError p) tx (heap s4) (rows_of flatData @ rest) (world s4)
                 = evs @ row_inserts P (breakOnError p) tx (heap s4) rest (world s5))
        | Some err \<Rightarrow> EvRollback tx \<in> set evs
            \<and> (\<forall>rest. row_inserts P (breakOnError p) tx (heap s4) (rows_of flatData @ rest) (world s4)
                 = evs))"
    unfolding s5_def by blast
  show ?thesis
  proof (cases "fst (Store_groups P p tx flatData s4)")
    case (Some err)
    with evs(2) have r: "EvRollback tx \<in> set evs" "ri = evs"
      using f4 by (simp_all add: ri_def) (metis append_Nil2)
    have "Store_tx P p flatData s = ((rowsCount flatData, Some err), s5)"
      using Some by (simp add: Store_tx_def c4 s5_def case_prod_beta)
    then show ?thesis
      using r by (simp add: added_def evs(1) f4)
  next
    case None
    with evs(2) have r: "EvRollback tx \<notin> set evs" "ri = evs"
      using f4 by (simp_all add: ri_def) (metis append_Nil2 row_inserts.simps(1))
    define s6 where "s6 = snd (call (DirectCommit P tx) (EvDirectCommit tx) s5)"
    define res where "res = fst (DirectCommit P tx (world s5))"
    have c6: "call (DirectCommit P tx) (EvDirectCommit tx) s5 = (res, s6)"
      by (simp add: s6_def res_def call_eq)
    have f6: "trace s6 = trace s5 @ [EvDirectCommit tx res]"
      by (simp add: s6_def res_def call_eq)
    have "Store_tx P p flatData s = ((rowsCount flatData, res), s6)"
      using None by (simp add: Store_tx_def c4 s5_def [symmetric] case_prod_beta c6)
    then show ?thesis
      using r by (simp add: added_def evs(1) f4 f6)
  qed
qed

lemma Store_after_tables:
  assumes flat: "call (ProcessFilePayload P fileName bytes (breakOnError p))
        (\<lambda>_. EvProcessFilePayload fileName bytes (breakOnError p)) s = (Inr groups, s1)"
    and groups: "alloc_groups groups s1 = (flatData, s2)"
  shows "Store P p fileName bytes s =
     (case Store_tables P p flatData s2 of
        (Some err, s3) \<Rightarrow> ((rowsCount flatData, Some err), s3)
      | (None, s3) \<Rightarrow> Store_tx P p flatData s3)"
  using flat groups by (simp add: Store_def)

lemma Store_extends_tables:
  assumes flat: "call (ProcessFilePayload P fileName bytes (breakOnError p))
        (\<lambda>_. EvProcessFilePayload fileName bytes (breakOnError p)) s = (Inr groups, s1)"
    and groups: "alloc_groups groups s1 = (flatData, s2)"
  shows "extends (snd (Store_tables P p flatData s2)) (snd (Store P p fileName bytes s))"
proof (cases "Store_tables P p flatData s2")
  case (Pair r s3)
  show ?thesis
  proof (cases r)
    case None
    then show ?thesis
      using Pair Store_tx_extends [of s3 P p flatData]
      by (simp add: Store_after_tables [OF flat groups])
  next
    case (Some err)
    then show ?thesis
      using Pair by (simp add: Store_after_tables [OF flat groups])
  qed
qed

text \<open>The typing call of a row-group is the first call after its \<^verbatim>\<open>EnsureTable\<close>.\<close>

lemma Store_tables_typing:
  assumes pre: "Store_tables P p pre s2 = (None, sk)"
    and ens: "EnsureTable P (name p) (DataSchema fd) sk = (Inr db, se)"
  shows "\<exists>evs. trace (snd (Store_tables P p (pre @ fd # post) s2))
      = trace se @ EvApplyDBTyping db fd
          (fst (ApplyDBTyping P (heap se db) (heap se (DataSchema fd)) (payload fd) (world se)))
        # evs"
proof -
  let ?r = "fst (ApplyDBTyping P (heap se db) (heap se (DataSchema fd)) (payload fd) (world se))"
  define st where "st = snd (call (ApplyDBTyping P (heap se db) (heap se (DataSchema fd))
      (payload fd)) (EvApplyDBTyping db fd) se)"
  have t: "trace st = trace se @ [EvApplyDBTyping db fd ?r]"
    by (simp add: st_def call_eq)
  have c: "call (ApplyDBTyping P (heap se db) (heap se (DataSchema fd)) (payload fd))
      (EvApplyDBTyping db fd) se = (?r, st)"
    by (simp add: st_def call_eq)
  have "extends st (snd (Store_tables P p (fd # post) sk))"
  proof (cases ?r)
    case None
    then have "Store_tables P p (fd # post) sk = Store_tables P p post st"
      using ens c by simp
    then show ?thesis
      using Store_tables_extends [of P p post st] by (simp add: prod_eq_iff)
  next
    case (Some err)
    then have "Store_tables P p (fd # post) sk = (Some err, st)"
      using ens c by simp
    then show ?thesis by simp
  qed
  then obtain evs where "trace (snd (Store_tables P p (fd # post) sk)) = trace st @ evs"
    unfolding extends_def by blast
  then show ?thesis
    unfolding Store_tables_append [OF pre] t by simp
qed

text \<open>
  Claim C9, as amended. \<^verbatim>\<open>Insert\<close>: when \<^verbatim>\<open>EnsureTable\<close> fails, its error is returned in
  the state it left, with no typing and no insert. When it returns \<open>dbSchema\<close>, the typing
  step is handed the table of \<open>dbSchema\<close>; if the typing fails its error is returned and
  nothing is inserted; if it succeeds, the adapter's insert is handed the table of the
  caller's \<open>dataSchema\<close>, and its result and the world it leaves are those of \<^verbatim>\<open>Insert\<close>.
  \<^verbatim>\<open>Store\<close>, once the payload is flattened: for every row-group, the call that follows
  the \<^verbatim>\<open>EnsureTable\<close> of that row-group is the typing, handed the table that \<^verbatim>\<open>EnsureTable\<close>
  returned and the table of the row-group's own \<^verbatim>\<open>DataSchema\<close>; and once the tables are
  ensured and the transaction is open, what \<^verbatim>\<open>Store\<close> calls is exactly \<open>row_inserts\<close> on the
  rows of the payload: every insert is handed the table of the \<^verbatim>\<open>DataSchema\<close> of the row's
  own row-group, followed by the commit unless a rollback ended the rows. Nothing is
  said on whether the two objects differ: they need not.
\<close>

theorem inserts_on_callers_schema_object:
  fixes P :: "('w, 'c) ports"
  shows "(\<forall>err s1. EnsureTable P (name p) dataSchema s = (Inl err, s1) \<longrightarrow>
        Insert P p dataSchema fct s = (Some err, s1))
    \<and> (\<forall>dbSchema s1. EnsureTable P (name p) dataSchema s = (Inr dbSchema, s1) \<longrightarrow>
        (\<forall>err w2. ApplyDBTypingToObject P (heap s1 dbSchema) fct (world s1) = (Some err, w2) \<longrightarrow>
            fst (Insert P p dataSchema fct s) = Some err
          \<and> added s1 (snd (Insert P p dataSchema fct s))
              = [EvApplyDBTypingToObject dbSchema fct (Some err)])
      \<and> (\<forall>w2. ApplyDBTypingToObject P (heap s1 dbSchema) fct (world s1) = (None, w2) \<longrightarrow>
            added s1 (snd (Insert P p dataSchema fct s))
              = [EvApplyDBTypingToObject dbSchema fct None,
                 EvInsert dataSchema fct (fst (Insert P p dataSchema fct s))]
          \<and> fst (Insert P p dataSchema fct s)
              = fst (AdapterInsert P (heap s1 dataSchema) fct w2)
          \<and> world (snd (Insert P p dataSchema fct s))
              = snd (AdapterInsert P (heap s1 dataSchema) fct w2)))
    \<and> (\<forall>groups sa flatData sb.
        call (ProcessFilePayload P fileName bytes (breakOnError p))
          (\<lambda>_. EvProcessFilePayload fileName bytes (breakOnError p)) s = (Inr groups, sa)
        \<and> alloc_groups groups sa = (flatData, sb) \<longrightarrow>
        (\<forall>pre fd post sk dbSchema se.
            flatData = pre @ fd # post
            \<and> Store_tables P p pre sb = (None, sk)
            \<and> EnsureTable P (name p) (DataSchema fd) sk = (Inr dbSchema, se) \<longrightarrow>
            take 1 (added se (snd (Store P p fileName bytes s)))
              = [EvApplyDBTyping dbSchema fd
                   (fst (ApplyDBTyping P (heap se dbSchema) (heap se (DataSchema fd))
                          (payload fd) (world se)))])
      \<and> (\<forall>sc tx w4.
            Store_tables P p flatData sb = (None, sc) \<and> OpenTx P (world sc) = (Inr tx, w4) \<longrightarrow>
            added sc (snd (Store P p fileName bytes s))
              = EvOpenTx (Inr tx)
                # row_inserts P (breakOnError p) tx (heap sc) (rows_of flatData) w4
                @ (if EvRollback tx
                       \<in> set (row_inserts P (breakOnError p) tx (heap sc) (rows_of flatData) w4)
                   then []
                   else [EvDirectCommit tx (snd (fst (Store P p fileName bytes s)))])))"
proof (intro conjI allI impI; (elim conjE)?)
  fix err s1
  assume "EnsureTable P (name p) dataSchema s = (Inl err, s1)"
  then show "Insert P p dataSchema fct s = (Some err, s1)"
    by (simp add: Insert_def)
next
  fix dbSchema s1 err w2
  assume "EnsureTable P (name p) dataSchema s = (Inr dbSchema, s1)"
    and "ApplyDBTypingToObject P (heap s1 dbSchema) fct (world s1) = (Some err, w2)"
  then have "Insert P p dataSchema fct s
      = (Some err, s1\<lparr>world := w2,
           trace := trace s1 @ [EvApplyDBTypingToObject dbSchema fct (Some err)]\<rparr>)"
    by (simp add: Insert_def call_def)
  then show "fst (Insert P p dataSchema fct s) = Some err"
    and "added s1 (snd (Insert P p dataSchema fct s))
              = [EvApplyDBTypingToObject dbSchema fct (Some err)]"
    by (simp_all add: added_def)
next
  fix dbSchema s1 w2
  assume "EnsureTable P (name p) dataSchema s = (Inr dbSchema, s1)"
    and "ApplyDBTypingToObject P (heap s1 dbSchema) fct (world s1) = (None, w2)"
  then have i: "Insert P p dataSchema fct s
      = call (AdapterInsert P (heap s1 dataSchema) fct) (EvInsert dataSchema fct)
          (s1\<lparr>world := w2, trace := trace s1 @ [EvApplyDBTypingToObject dbSchema fct None]\<rparr>)"
    by (simp add: Insert_def call_def)
  show "added s1 (snd (Insert P p dataSchema fct s))
            = [EvApplyDBTypingToObject dbSchema fct None,
               EvInsert dataSchema fct (fst (Insert P p dataSchema fct s))]"
    unfolding i by (simp add: call_eq added_def)
  show "fst (Insert P p dataSchema fct s) = fst (AdapterInsert P (heap s1 dataSchema) fct w2)"
    unfolding i by (simp add: call_eq)
  show "world (snd (Insert P p dataSchema fct s))
      = snd (AdapterInsert P (heap s1 dataSchema) fct w2)"
    unfolding i by (simp add: call_eq)
next
  fix groups sa flatData sb pre fd post sk dbSchema se
  assume flat: "call (ProcessFilePayload P fileName bytes (breakOnError p))
          (\<lambda>_. EvProcessFilePayload fileName bytes (breakOnError p)) s = (Inr groups, sa)"
    and groups: "alloc_groups groups sa = (flatData, sb)"
    and split: "flatData = pre @ fd # post"
    and pre: "Store_tables P p pre sb = (None, sk)"
    and ens: "EnsureTable P (name p) (DataSchema fd) sk = (Inr dbSchema, se)"
  let ?e = "EvApplyDBTyping dbSchema fd
      (fst (ApplyDBTyping P (heap se dbSchema) (heap se (DataSchema fd)) (payload fd) (world se)))"
  from Store_tables_typing [OF pre ens, of post] obtain evs where
    "trace (snd (Store_tables P p flatData sb)) = trace se @ ?e # evs"
    unfolding split by blast
  moreover from Store_extends_tables [OF flat groups] obtain evs' where
    "trace (snd (Store P p fileName bytes s)) = trace (snd (Store_tables P p flatData sb)) @ evs'"
    unfolding extends_def by blast
  ultimately show "take 1 (added se (snd (Store P p fileName bytes s))) = [?e]"
    by (simp add: added_def)
next
  fix groups sa flatData sb sc tx w4
  assume flat: "call (ProcessFilePayload P fileName bytes (breakOnError p))
          (\<lambda>_. EvProcessFilePayload fileName bytes (breakOnError p)) s = (Inr groups, sa)"
    and groups: "alloc_groups groups sa = (flatData, sb)"
    and ensured: "Store_tables P p flatData sb = (None, sc)"
    and tx: "OpenTx P (world sc) = (Inr tx, w4)"
  have "Store P p fileName bytes s = Store_tx P p flatData sc"
    using ensured by (simp add: Store_after_tables [OF flat groups])
  then show "added sc (snd (Store P p fileName bytes s))
              = EvOpenTx (Inr tx)
                # row_inserts P (breakOnError p) tx (heap sc) (rows_of flatData) w4
                @ (if EvRollback tx
                       \<in> set (row_inserts P (breakOnError p) tx (heap sc) (rows_of flatData) w4)
                   then []
                   else [EvDirectCommit tx (snd (fst (Store P p fileName bytes s)))])"
    using Store_tx_replay [OF tx, of p flatData] by simp
qed

theorem inserts_on_callers_schema_object_witness:
  "Insert ports_no_lock (sim_pg False) 0 21 (sim_cached world_id 1)
     = (Some ''System error locking table events in postgres: lock service unavailable'',
        snd (EnsureTable ports_no_lock ''pg'' 0 (sim_cached world_id 1)))
   \<and> fst (EnsureTable ports_no_typing ''pg'' 0 (sim_cached world_city 1)) = Inr 2
   \<and> fst (Insert ports_no_typing (sim_pg False) 0 21 (sim_cached world_city 1))
       = Some ''cannot convert''
   \<and> added (snd (EnsureTable ports_no_typing ''pg'' 0 (sim_cached world_city 1)))
        (snd (Insert ports_no_typing (sim_pg False) 0 21 (sim_cached world_city 1)))
       = [EvApplyDBTypingToObject 2 21 (Some ''cannot convert'')]
   \<and> fst (EnsureTable sim_ports ''pg'' 0 (sim_cached world_city 1)) = Inr 2
   \<and> added (snd (EnsureTable sim_ports ''pg'' 0 (sim_cached world_city 1)))
        (snd (Insert sim_ports (sim_pg False) 0 21 (sim_cached world_city 1)))
       = [EvApplyDBTypingToObject 2 21 None, EvInsert 0 21 None]
   \<and> take 1 (drop 6 (trace (snd (Store sim_ports (sim_pg False) ''batch'' []
        (sim_state world_pair)))))
       = [EvApplyDBTyping 1 \<lparr>DataSchema = 1, payload = [11, 12]\<rparr> None]
   \<and> take 1 (drop 7 (trace (snd (Store sim_ports (sim_pg False) ''batch'' []
        (sim_state world_pair)))))
       = [EvApplyDBTyping 1 \<lparr>DataSchema = 2, payload = [13]\<rparr> None]
   \<and> drop 8 (trace (snd (Store sim_ports (sim_pg False) ''batch'' [] (sim_state world_pair))))
       = [EvOpenTx (Inr 7), EvInsertInTransaction 7 1 11 None,
          EvInsertInTransaction 7 1 12 (Some ''row rejected''),
          EvInsertInTransaction 7 2 13 None, EvDirectCommit 7 None]
   \<and> drop 8 (trace (snd (Store sim_ports (sim_pg True) ''batch'' [] (sim_state world_pair))))
       = [EvOpenTx (Inr 7), EvInsertInTransaction 7 1 11 None,
          EvInsertInTransaction 7 1 12 (Some ''row rejected''), EvRollback 7]"
proof -
  note ensure_fails = inserts_on_callers_schema_object [THEN conjunct1, rule_format]
  note ensured = inserts_on_callers_schema_object [THEN conjunct2, THEN conjunct1, rule_format]
  note stored = inserts_on_callers_schema_object [THEN conjunct2, THEN conjunct2, rule_format]
  have pg: "name (sim_pg b) = ''pg''" "breakOnError (sim_pg b) = b" for b
    by (simp_all add: sim_pg_def)

  have "EnsureTable ports_no_lock (name (sim_pg False)) 0 (sim_cached world_id 1)
      = (Inl ''System error locking table events in postgres: lock service unavailable'',
         snd (EnsureTable ports_no_lock ''pg'' 0 (sim_cached world_id 1)))"
    by (simp add: sim_defs run_defs fail_defs pg)
  then have a: "Insert ports_no_lock (sim_pg False) 0 21 (sim_cached world_id 1)
     = (Some ''System error locking table events in postgres: lock service unavailable'',
        snd (EnsureTable ports_no_lock ''pg'' 0 (sim_cached world_id 1)))"
    by (rule ensure_fails)

  let ?t1 = "snd (EnsureTable ports_no_typing ''pg'' 0 (sim_cached world_city 1))"
  have b1: "fst (EnsureTable ports_no_typing ''pg'' 0 (sim_cached world_city 1)) = Inr 2"
    by (simp add: sim_defs run_defs pair_defs)
  then have "EnsureTable ports_no_typing (name (sim_pg False)) 0 (sim_cached world_city 1)
      = (Inr 2, ?t1)"
    by (simp add: prod_eq_iff pg)
  moreover have "ApplyDBTypingToObject ports_no_typing (heap ?t1 2) 21 (world ?t1)
      = (Some ''cannot convert'', world ?t1)"
    by (simp add: ports_no_typing_def)
  ultimately have b2: "fst (Insert ports_no_typing (sim_pg False) 0 21 (sim_cached world_city 1))
       = Some ''cannot convert''
     \<and> added ?t1 (snd (Insert ports_no_typing (sim_pg False) 0 21 (sim_cached world_city 1)))
       = [EvApplyDBTypingToObject 2 21 (Some ''cannot convert'')]"
    by (rule ensured [THEN conjunct1, rule_format])

  let ?u1 = "snd (EnsureTable sim_ports ''pg'' 0 (sim_cached world_city 1))"
  have c1: "fst (EnsureTable sim_ports ''pg'' 0 (sim_cached world_city 1)) = Inr 2"
    by (rule sim_stale_city_result)
  then have "EnsureTable sim_ports (name (sim_pg False)) 0 (sim_cached world_city 1)
      = (Inr 2, ?u1)"
    by (simp add: prod_eq_iff pg)
  moreover have "ApplyDBTypingToObject sim_ports (heap ?u1 2) 21 (world ?u1) = (None, world ?u1)"
    by (simp add: sim_ports_def)
  ultimately have "added ?u1 (snd (Insert sim_ports (sim_pg False) 0 21 (sim_cached world_city 1)))
       = [EvApplyDBTypingToObject 2 21 None,
          EvInsert 0 21 (fst (Insert sim_ports (sim_pg False) 0 21 (sim_cached world_city 1)))]
     \<and> fst (Insert sim_ports (sim_pg False) 0 21 (sim_cached world_city 1))
       = fst (AdapterInsert sim_ports (heap ?u1 0) 21 (world ?u1))
     \<and> world (snd (Insert sim_ports (sim_pg False) 0 21 (sim_cached world_city 1)))
       = snd (AdapterInsert sim_ports (heap ?u1 0) 21 (world ?u1))"
    by (rule ensured [THEN conjunct2, rule_format])
  moreover have "fst (AdapterInsert sim_ports t 21 w) = None" for t w
    by (simp add: sim_ports_def)
  ultimately have c2: "added ?u1 (snd (Insert sim_ports (sim_pg False) 0 21 (sim_cached world_city 1)))
       = [EvApplyDBTypingToObject 2 21 None, EvInsert 0 21 None]"
    by simp

  let ?g1 = "\<lparr>DataSchema = 1, payload = [11, 12]\<rparr>" and ?g2 = "\<lparr>DataSchema = 2, payload = [13]\<rparr>"
  let ?groups = "[(desired, [11, 12]), (desired, [13 :: object])]"
  let ?sa = "\<lambda>b. snd (call (ProcessFilePayload sim_ports ''batch'' [] b)
      (\<lambda>_. EvProcessFilePayload ''batch'' [] b) (sim_state world_pair))"
  let ?sb = "\<lambda>b. snd (alloc_groups ?groups (?sa b))"
  let ?se1 = "\<lambda>b. snd (EnsureTable sim_ports ''pg'' 1 (?sb b))"
  let ?sk = "\<lambda>b. snd (Store_tables sim_ports (sim_pg b) [?g1] (?sb b))"
  let ?se2 = "\<lambda>b. snd (EnsureTable sim_ports ''pg'' 2 (?sk b))"
  let ?sc = "\<lambda>b. snd (Store_tables sim_ports (sim_pg b) pair (?sb b))"
  let ?final = "\<lambda>b. Store sim_ports (sim_pg b) ''batch'' [] (sim_state world_pair)"
  have flat: "call (ProcessFilePayload sim_ports ''batch'' [] (breakOnError (sim_pg b)))
        (\<lambda>_. EvProcessFilePayload ''batch'' [] (breakOnError (sim_pg b))) (sim_state world_pair)
      = (Inr ?groups, ?sa b)
    \<and> alloc_groups ?groups (?sa b) = (pair, ?sb b)" for b
    by (simp add: call_eq alloc_def sim_ports_def sim_state_def world_pair_def sim_world_def
        pair_def pg)
  have ty: "fst (ApplyDBTyping sim_ports t t' objs w) = None" for t t' objs w
    by (simp add: sim_ports_def)
  have first: "pair = [] @ ?g1 # [?g2]
    \<and> Store_tables sim_ports (sim_pg b) [] (?sb b) = (None, ?sb b)
    \<and> EnsureTable sim_ports (name (sim_pg b)) (DataSchema ?g1) (?sb b) = (Inr 1, ?se1 b)" for b
    by (simp add: prod_eq_iff sim_defs run_defs store_defs pair_defs)
  have len1: "length (trace (?se1 b)) = 6" for b
    by (simp add: sim_defs run_defs store_defs pair_defs)
  have d: "take 1 (drop 6 (trace (snd (?final False))))
      = [EvApplyDBTyping 1 ?g1 None]"
    using stored [OF flat, THEN conjunct1, rule_format, OF first, of False]
    unfolding added_def len1 ty .
  have second: "pair = [?g1] @ ?g2 # []
    \<and> Store_tables sim_ports (sim_pg b) [?g1] (?sb b) = (None, ?sk b)
    \<and> EnsureTable sim_ports (name (sim_pg b)) (DataSchema ?g2) (?sk b) = (Inr 1, ?se2 b)" for b
    by (simp add: prod_eq_iff sim_defs run_defs store_defs pair_defs)
  have len2: "length (trace (?se2 b)) = 7" for b
    by (simp add: sim_defs run_defs store_defs pair_defs)
  have e: "take 1 (drop 7 (trace (snd (?final False))))
      = [EvApplyDBTyping 1 ?g2 None]"
    using stored [OF flat, THEN conjunct1, rule_format, OF second, of False]
    unfolding added_def len2 ty .
  have opened: "Store_tables sim_ports (sim_pg b) pair (?sb b) = (None, ?sc b)
    \<and> OpenTx sim_ports (world (?sc b)) = (Inr 7, world (?sc b))" for b
    by (simp add: prod_eq_iff sim_defs run_defs store_defs pair_defs)
  have len3: "length (trace (?sc b)) = 8" for b
    by (simp add: sim_defs run_defs store_defs pair_defs)
  have rows: "row_inserts sim_ports (breakOnError (sim_pg False)) 7 (heap (?sc False)) (rows_of pair)
        (world (?sc False))
      = [EvInsertInTransaction 7 1 11 None, EvInsertInTransaction 7 1 12 (Some ''row rejected''),
         EvInsertInTransaction 7 2 13 None]"
    "row_inserts sim_ports (breakOnError (sim_pg True)) 7 (heap (?sc True)) (rows_of pair)
        (world (?sc True))
      = [EvInsertInTransaction 7 1 11 None, EvInsertInTransaction 7 1 12 (Some ''row rejected''),
         EvRollback 7]"
    "snd (fst (?final False)) = None"
    by (simp_all add: sim_defs run_defs store_defs pair_defs)
  have f: "drop 8 (trace (snd (?final False)))
      = [EvOpenTx (Inr 7), EvInsertInTransaction 7 1 11 None,
          EvInsertInTransaction 7 1 12 (Some ''row rejected''),
          EvInsertInTransaction 7 2 13 None, EvDirectCommit 7 None]"
    using stored [OF flat, THEN conjunct2, rule_format, OF opened, of False]
    unfolding added_def len3 rows by simp
  have g: "drop 8 (trace (snd (?final True)))
      = [EvOpenTx (Inr 7), EvInsertInTransaction 7 1 11 None,
          EvInsertInTransaction 7 1 12 (Some ''row rejected''), EvRollback 7]"
    using stored [OF flat, THEN conjunct2, rule_format, OF opened, of True]
    unfolding added_def len3 rows by simp
  show ?thesis
    by (simp only: a b1 b2 c1 c2 d e f g simp_thms)
qed

text \<open>
  Claim C9 as stated has the insert made not against the schema that \<^verbatim>\<open>EnsureTable\<close>
  returned. When \<^verbatim>\<open>EnsureTable\<close> creates the table, it returns the caller's own object: here
  it returns the object 0, the typing is handed the object 0 and the insert is made on
  the object 0.
\<close>

theorem insert_on_ensured_schema_counterexample:
  "fst (EnsureTable sim_ports ''pg'' 0 (sim_state sim_world)) = Inr 0
   \<and> added (snd (EnsureTable sim_ports ''pg'' 0 (sim_state sim_world)))
        (snd (Insert sim_ports (sim_pg False) 0 21 (sim_state sim_world)))
       = [EvApplyDBTypingToObject 0 21 None, EvInsert 0 21 None]"
  by (simp add: sim_defs run_defs store_defs)

subsection \<open>Closing the storage\<close>

text \<open>
  Claim C6, as amended. \<^verbatim>\<open>Close\<close> closes the connection first. If that fails, the failure
  is returned to the caller, prefixed with the storage's name. If it succeeds, the
  streaming worker is stopped when there is one, and \<^verbatim>\<open>Close\<close> returns no error: nothing
  the worker's \<^verbatim>\<open>Close\<close> may report reaches the caller.
\<close>

theorem Close_adapter_first:
  fixes P :: "('w, 'c) ports"
  shows "(\<exists>r. take 1 (added s (snd (Close P p s))) = [EvAdapterClose r])
    \<and> (\<forall>err w1. AdapterClose P (world s) = (Some err, w1) \<longrightarrow>
          fst (Close P p s) = Some (''['' @ name p @ ''] Error closing postgres datasource: '' @ err))
    \<and> (\<forall>w1. AdapterClose P (world s) = (None, w1) \<longrightarrow>
          fst (Close P p s) = None
        \<and> added s (snd (Close P p s))
            = EvAdapterClose None # (if streamingWorker p then [EvWorkerClose] else [])
        \<and> world (snd (Close P p s)) = (if streamingWorker p then WorkerClose P w1 else w1))"
  by (auto simp: Close_def call_eq added_def split: option.splits)

theorem Close_adapter_first_witness:
  "fst (Close sim_ports (sim_pg False) (sim_state sim_world)) = None
   \<and> added (sim_state sim_world) (snd (Close sim_ports (sim_pg False) (sim_state sim_world)))
       = [EvAdapterClose None, EvWorkerClose]
   \<and> fst (Close sim_ports (sim_pg False) (sim_state (sim_world\<lparr>close_fails := True\<rparr>)))
       = Some ''[pg] Error closing postgres datasource: connection lost''"
proof -
  have ok: "AdapterClose sim_ports (world (sim_state sim_world)) = (None, sim_world)"
    by (simp add: sim_defs)
  have bad: "AdapterClose sim_ports (world (sim_state (sim_world\<lparr>close_fails := True\<rparr>)))
      = (Some ''connection lost'', sim_world\<lparr>close_fails := True\<rparr>)"
    by (simp add: sim_defs)
  from Close_adapter_first [of "sim_state sim_world" sim_ports "sim_pg False"] ok
  have "fst (Close sim_ports (sim_pg False) (sim_state sim_world)) = None
   \<and> added (sim_state sim_world) (snd (Close sim_ports (sim_pg False) (sim_state sim_world)))
       = [EvAdapterClose None, EvWorkerClose]"
    by (simp add: sim_pg_def)
  moreover from Close_adapter_first
    [of "sim_state (sim_world\<lparr>close_fails := True\<rparr>)" sim_ports "sim_pg False"] bad
  have "fst (Close sim_ports (sim_pg False) (sim_state (sim_world\<lparr>close_fails := True\<rparr>)))
       = Some ''[pg] Error closing postgres datasource: connection lost''"
    by (simp add: sim_pg_def)
  ultimately show ?thesis by blast
qed

text \<open>
  Claim C6 as stated has both shutdowns attempted even if one fails. With a streaming
  worker running and a connection whose \<^verbatim>\<open>Close\<close> fails, \<^verbatim>\<open>Close\<close> returns after the first
  call: the worker's \<^verbatim>\<open>Close\<close> is not called.
\<close>

theorem Close_short_circuit_counterexample:
  "streamingWorker (sim_pg False)
   \<and> fst (Close sim_ports (sim_pg False) (sim_state (sim_world\<lparr>close_fails := True\<rparr>)))
       = Some ''[pg] Error closing postgres datasource: connection lost''
   \<and> trace (snd (Close sim_ports (sim_pg False) (sim_state (sim_world\<lparr>close_fails := True\<rparr>))))
       = [EvAdapterClose (Some ''connection lost'')]"
  by (simp add: sim_defs store_defs call_def)

end
